theory Spec2Isabelle
  imports Complex_Main
begin

section \<open>Python values\<close>

text \<open>
  A Python \<open>str\<close> is a sequence of Unicode code points, so \<open>len\<close> counts code points.
  Dictionary keys (column names) are written as HOL string literals.
\<close>

type_synonym pystr = "nat list"

text \<open>
  A Python \<open>float\<close> is a binary64 number: a finite value (kept as the rational it
  denotes), an infinity or NaN. The sign of zero is not modelled.
\<close>

datatype pyfloat = Fin rat | PInf | NInf | NaN

datatype pynum = NInt int | NFloat pyfloat

datatype pyval = VNone | VInt int | VFloat pyfloat | VStr pystr

type_synonym pydict = "string \<rightharpoonup> pyval"

datatype error =
    KeyError string
  | TypeError
  | AttributeError
  | ZeroDivisionError
  | OverflowError
  | FileExistsError
  | ExternalError string

text \<open>Sequencing of calls that may raise: the first exception is the result.\<close>

fun and_then :: "error + 'a \<Rightarrow> ('a \<Rightarrow> error + 'b) \<Rightarrow> error + 'b" where
  "and_then (Inl e) f = Inl e"
| "and_then (Inr x) f = f x"

subsection \<open>Comparisons\<close>

text \<open>
  Python compares an \<open>int\<close> with a \<open>float\<close> by exact value; every ordering
  comparison with NaN is false, and NaN is not equal to itself.
\<close>

fun fl_lt :: "pyfloat \<Rightarrow> pyfloat \<Rightarrow> bool" where
  "fl_lt (Fin a) (Fin b) = (a < b)"
| "fl_lt (Fin a) PInf = True"
| "fl_lt NInf (Fin b) = True"
| "fl_lt NInf PInf = True"
| "fl_lt _ _ = False"

fun fl_eq :: "pyfloat \<Rightarrow> pyfloat \<Rightarrow> bool" where
  "fl_eq (Fin a) (Fin b) = (a = b)"
| "fl_eq PInf PInf = True"
| "fl_eq NInf NInf = True"
| "fl_eq _ _ = False"

definition fl_le :: "pyfloat \<Rightarrow> pyfloat \<Rightarrow> bool" where
  "fl_le a b = (fl_lt a b \<or> fl_eq a b)"

fun exact :: "pynum \<Rightarrow> pyfloat" where
  "exact (NInt i) = Fin (of_int i)"
| "exact (NFloat f) = f"

fun as_num :: "pyval \<Rightarrow> error + pynum" where
  "as_num (VInt i) = Inr (NInt i)"
| "as_num (VFloat f) = Inr (NFloat f)"
| "as_num VNone = Inl TypeError"
| "as_num (VStr s) = Inl TypeError"

text \<open>
  \<open>v > t\<close>, \<open>v < t\<close> and \<open>v <= t\<close> for a record value \<open>v\<close> and a numeric
  threshold \<open>t\<close>: a value that is \<open>None\<close> or a string raises TypeError.
\<close>

definition py_gt :: "pyval \<Rightarrow> pynum \<Rightarrow> error + bool" where
  "py_gt v t = (case as_num v of Inl e \<Rightarrow> Inl e | Inr n \<Rightarrow> Inr (fl_lt (exact t) (exact n)))"

definition py_lt :: "pyval \<Rightarrow> pynum \<Rightarrow> error + bool" where
  "py_lt v t = (case as_num v of Inl e \<Rightarrow> Inl e | Inr n \<Rightarrow> Inr (fl_lt (exact n) (exact t)))"

definition py_le :: "pyval \<Rightarrow> pynum \<Rightarrow> error + bool" where
  "py_le v t = (case as_num v of Inl e \<Rightarrow> Inl e | Inr n \<Rightarrow> Inr (fl_le (exact n) (exact t)))"

text \<open>\<open>v == t\<close> for a numeric \<open>t\<close>: never raises, false for \<open>None\<close> and strings.\<close>

definition py_eq_num :: "pyval \<Rightarrow> pynum \<Rightarrow> bool" where
  "py_eq_num v t = (case as_num v of Inl e \<Rightarrow> False | Inr n \<Rightarrow> fl_eq (exact n) (exact t))"

text \<open>\<open>d[k]\<close> raises KeyError on a missing key.\<close>

definition getitem :: "pydict \<Rightarrow> string \<Rightarrow> error + pyval" where
  "getitem d k = (case d k of None \<Rightarrow> Inl (KeyError k) | Some v \<Rightarrow> Inr v)"

text \<open>
  \<open>s.lower()\<close>: only a \<open>str\<close> has the method. The Unicode case mapping itself is the
  interpreter's and is taken as a parameter.
\<close>

definition str_lower :: "(pystr \<Rightarrow> pystr) \<Rightarrow> pyval \<Rightarrow> error + pystr" where
  "str_lower lower v = (case v of VStr s \<Rightarrow> Inr (lower s) | _ \<Rightarrow> Inl AttributeError)"

section \<open>Configuration\<close>

text \<open>
  Modelled from the spec: the class \<open>FilteringArguments\<close> of \<open>arguments.py\<close>, which is
  not part of the sources. The spec's FilterConfig gives the fields read by the filter
  and their types; the destination fields are those read by \<open>stream_to_disk\<close>.
\<close>

record FilteringArguments =
  line_max :: int
  line_mean :: pyfloat
  alpha_frac :: pyfloat
  threshold_stars :: int
  min_threshold_comments :: pyfloat
  max_threshold_comments :: pyfloat
  num_workers :: int
  hub_username :: string
  remote_repo :: string
  out_path :: string
  subset :: string

section \<open>The combined filter\<close>

text \<open>
  External collaborators of the evaluator: the interpreter's \<open>str.lower\<close> and
  \<open>get_nl_ratio\<close> of \<open>utils.text_extraction\<close>, declared to return a float. Like any
  call it may raise instead of returning.
\<close>

type_synonym nl_oracle = "pyval \<Rightarrow> pystr \<Rightarrow> error + pyfloat"

text \<open>The pair \<open>(is_valid, stats)\<close> that the function body threads through its three blocks.\<close>

type_synonym verdict = "bool \<times> pydict"

text \<open>The three conditions of the \<open>if\<close>/\<open>elif\<close> chain, each with the lookup it starts with.\<close>

definition max_line_cond :: "pydict \<Rightarrow> 'a FilteringArguments_scheme \<Rightarrow> error + bool" where
  "max_line_cond example args =
     and_then (getitem example ''max_line_length'') (\<lambda>v. py_gt v (NInt (line_max args)))"

definition avg_line_cond :: "pydict \<Rightarrow> 'a FilteringArguments_scheme \<Rightarrow> error + bool" where
  "avg_line_cond example args =
     and_then (getitem example ''avg_line_length'') (\<lambda>v. py_gt v (NFloat (line_mean args)))"

definition alphanum_cond :: "pydict \<Rightarrow> 'a FilteringArguments_scheme \<Rightarrow> error + bool" where
  "alphanum_cond example args =
     and_then (getitem example ''alphanum_fraction'') (\<lambda>v. py_lt v (NFloat (alpha_frac args)))"

definition basic_filters :: "pydict \<Rightarrow> 'a FilteringArguments_scheme \<Rightarrow> verdict \<Rightarrow> error + verdict" where
  "basic_filters example args vs =
     and_then (max_line_cond example args) (\<lambda>c1.
       if c1 then Inr (False, (snd vs)(''basic_rejected_max_line'' \<mapsto> VInt 1))
       else and_then (avg_line_cond example args) (\<lambda>c2.
         if c2 then Inr (False, (snd vs)(''basic_rejected_avg_line'' \<mapsto> VInt 1))
         else and_then (alphanum_cond example args) (\<lambda>c3.
           if c3 then Inr (False, (snd vs)(''basic_rejected_alphanum'' \<mapsto> VInt 1))
           else Inr vs)))"

text \<open>\<open>example.get("max_stars_count", 0)\<close>, then \<open>None\<close> replaced by \<open>0\<close>.\<close>

definition normalized_stars :: "pydict \<Rightarrow> pyval" where
  "normalized_stars example =
    (let stars = (case example ''max_stars_count'' of None \<Rightarrow> VInt 0 | Some v \<Rightarrow> v)
     in if stars = VNone then VInt 0 else stars)"

text \<open>\<open>stars <= args.threshold_stars\<close>\<close>

definition stars_cond :: "pydict \<Rightarrow> 'a FilteringArguments_scheme \<Rightarrow> error + bool" where
  "stars_cond example args = py_le (normalized_stars example) (NInt (threshold_stars args))"

definition stars_filter :: "pydict \<Rightarrow> 'a FilteringArguments_scheme \<Rightarrow> verdict \<Rightarrow> error + verdict" where
  "stars_filter example args vs =
    (let stars = normalized_stars example;
         stats = (snd vs)(''stars'' \<mapsto> stars)
     in and_then (stars_cond example args) (\<lambda>c.
          if c then Inr (False, stats(''stars_rejected'' \<mapsto> VInt 1))
          else Inr (fst vs, stats)))"

text \<open>
  \<open>get_nl_ratio(example["content"], example["lang"].lower())\<close>: the arguments are
  evaluated left to right, then the call is made.
\<close>

definition nl_ratio_of :: "(pystr \<Rightarrow> pystr) \<Rightarrow> nl_oracle \<Rightarrow> pydict \<Rightarrow> error + pyfloat" where
  "nl_ratio_of lower get_nl_ratio example =
     and_then (getitem example ''content'') (\<lambda>content.
     and_then (getitem example ''lang'') (\<lambda>lang.
     and_then (str_lower lower lang) (\<lambda>l. get_nl_ratio content l)))"

text \<open>\<open>nl_ratio <= args.min_threshold_comments or nl_ratio >= args.max_threshold_comments\<close>\<close>

definition comments_cond :: "pyfloat \<Rightarrow> 'a FilteringArguments_scheme \<Rightarrow> bool" where
  "comments_cond nl_ratio args =
     (fl_le nl_ratio (min_threshold_comments args) \<or> fl_le (max_threshold_comments args) nl_ratio)"

definition comments_filter ::
  "(pystr \<Rightarrow> pystr) \<Rightarrow> nl_oracle \<Rightarrow> pydict \<Rightarrow> 'a FilteringArguments_scheme \<Rightarrow> verdict \<Rightarrow> error + verdict" where
  "comments_filter lower get_nl_ratio example args vs =
     and_then (nl_ratio_of lower get_nl_ratio example) (\<lambda>nl_ratio.
       let stats = (snd vs)(''nl_ratio'' \<mapsto> VFloat nl_ratio)
       in if comments_cond nl_ratio args
          then Inr (False, stats(''comments_rejected'' \<mapsto> VInt 1))
          else Inr (fst vs, stats))"

text \<open>The dictionary \<open>stats\<close> as it stands just before the final merge.\<close>

definition diagnostics ::
  "(pystr \<Rightarrow> pystr) \<Rightarrow> nl_oracle \<Rightarrow> pydict \<Rightarrow> 'a FilteringArguments_scheme \<Rightarrow> error + pydict" where
  "diagnostics lower get_nl_ratio example args =
     and_then (basic_filters example args (True, Map.empty)) (\<lambda>v1.
     and_then (stars_filter example args v1) (\<lambda>v2.
     and_then (comments_filter lower get_nl_ratio example args v2) (\<lambda>v3.
       Inr ((snd v3)(''accepted'' \<mapsto> VInt (if fst v3 then 1 else 0))))))"

text \<open>\<open>return {**example, **stats}\<close>: on a common key the entry of \<open>stats\<close> wins.\<close>

definition combined_filter_map ::
  "(pystr \<Rightarrow> pystr) \<Rightarrow> nl_oracle \<Rightarrow> pydict \<Rightarrow> 'a FilteringArguments_scheme \<Rightarrow> error + pydict" where
  "combined_filter_map lower get_nl_ratio example args =
     and_then (diagnostics lower get_nl_ratio example args) (\<lambda>stats. Inr (example ++ stats))"

definition basic_tags :: "string list" where
  "basic_tags = [''basic_rejected_max_line'', ''basic_rejected_avg_line'', ''basic_rejected_alphanum'']"

definition rejection_tags :: "string list" where
  "rejection_tags = basic_tags @ [''stars_rejected'', ''comments_rejected'']"

text \<open>A field of the evaluator's output; \<open>None\<close> when the field is absent or nothing was returned.\<close>

definition output_field :: "string \<Rightarrow> error + pydict \<Rightarrow> pyval option" where
  "output_field k r = (case r of Inl e \<Rightarrow> None | Inr d \<Rightarrow> d k)"

section \<open>Binary64 arithmetic\<close>

text \<open>
  Every arithmetic operation on floats returns the exact result rounded to the nearest
  binary64 number, ties to even; a result of magnitude \<open>2^1024\<close> or more overflows.
\<close>

definition pow2 :: "int \<Rightarrow> rat" where
  "pow2 e = (if 0 \<le> e then 2 ^ nat e else 1 / 2 ^ nat (- e))"

text \<open>The number of binary digits of a positive integer, \<open>0\<close> otherwise.\<close>

function bit_length :: "int \<Rightarrow> int" where
  "bit_length n = (if n \<le> 0 then 0 else 1 + bit_length (n div 2))"
  by pat_completeness auto
termination
  by (relation "measure nat") auto

declare bit_length.simps [simp del]

text \<open>The integer part of the binary logarithm of a positive rational.\<close>

definition ilog2 :: "rat \<Rightarrow> int" where
  "ilog2 a = (if 1 \<le> a then bit_length \<lfloor>a\<rfloor> - 1 else - bit_length (\<lceil>1 / a\<rceil> - 1))"

definition round_half_even :: "rat \<Rightarrow> int" where
  "round_half_even q =
     (let f = \<lfloor>q\<rfloor>; r = q - of_int f
      in if r < 1 / 2 then f else if 1 / 2 < r then f + 1 else if even f then f else f + 1)"

text \<open>
  53 significant bits; below \<open>2^-1022\<close> the spacing stays \<open>2^-1074\<close> (subnormal
  numbers).
\<close>

definition round_binary64 :: "rat \<Rightarrow> pyfloat" where
  "round_binary64 x =
     (if x = 0 then Fin 0
      else let a = \<bar>x\<bar>;
               e = max (ilog2 a - 52) (- 1074);
               y = of_int (round_half_even (a / pow2 e)) * pow2 e
           in if pow2 1024 \<le> y then (if 0 < x then PInf else NInf)
              else Fin (if 0 < x then y else - y))"

fun fl_neg :: "pyfloat \<Rightarrow> pyfloat" where
  "fl_neg (Fin a) = Fin (- a)"
| "fl_neg PInf = NInf"
| "fl_neg NInf = PInf"
| "fl_neg NaN = NaN"

fun fl_add :: "pyfloat \<Rightarrow> pyfloat \<Rightarrow> pyfloat" where
  "fl_add (Fin a) (Fin b) = round_binary64 (a + b)"
| "fl_add NaN _ = NaN"
| "fl_add _ NaN = NaN"
| "fl_add PInf NInf = NaN"
| "fl_add NInf PInf = NaN"
| "fl_add PInf _ = PInf"
| "fl_add NInf _ = NInf"
| "fl_add (Fin a) b = b"

definition fl_sub :: "pyfloat \<Rightarrow> pyfloat \<Rightarrow> pyfloat" where
  "fl_sub a b = fl_add a (fl_neg b)"

text \<open>The sign of an infinity multiplied or divided by a finite number.\<close>

definition signed_inf :: "bool \<Rightarrow> pyfloat" where
  "signed_inf positive = (if positive then PInf else NInf)"

fun fl_mul :: "pyfloat \<Rightarrow> pyfloat \<Rightarrow> pyfloat" where
  "fl_mul (Fin a) (Fin b) = round_binary64 (a * b)"
| "fl_mul NaN _ = NaN"
| "fl_mul _ NaN = NaN"
| "fl_mul PInf (Fin b) = (if b = 0 then NaN else signed_inf (0 < b))"
| "fl_mul NInf (Fin b) = (if b = 0 then NaN else signed_inf (b < 0))"
| "fl_mul (Fin a) PInf = (if a = 0 then NaN else signed_inf (0 < a))"
| "fl_mul (Fin a) NInf = (if a = 0 then NaN else signed_inf (a < 0))"
| "fl_mul PInf PInf = PInf"
| "fl_mul NInf NInf = PInf"
| "fl_mul PInf NInf = NInf"
| "fl_mul NInf PInf = NInf"

text \<open>Float division raises ZeroDivisionError on a zero divisor, whatever the dividend.\<close>

fun fl_div :: "pyfloat \<Rightarrow> pyfloat \<Rightarrow> error + pyfloat" where
  "fl_div (Fin a) (Fin b) = (if b = 0 then Inl ZeroDivisionError else Inr (round_binary64 (a / b)))"
| "fl_div PInf (Fin b) = (if b = 0 then Inl ZeroDivisionError else Inr (signed_inf (0 < b)))"
| "fl_div NInf (Fin b) = (if b = 0 then Inl ZeroDivisionError else Inr (signed_inf (b < 0)))"
| "fl_div NaN (Fin b) = (if b = 0 then Inl ZeroDivisionError else Inr NaN)"
| "fl_div _ NaN = Inr NaN"
| "fl_div (Fin a) _ = Inr (Fin 0)"
| "fl_div _ _ = Inr NaN"

text \<open>Conversion of an \<open>int\<close> operand to float raises OverflowError when it does not fit.\<close>

definition to_float :: "int \<Rightarrow> error + pyfloat" where
  "to_float i = (case round_binary64 (of_int i) of Fin y \<Rightarrow> Inr (Fin y) | _ \<Rightarrow> Inl OverflowError)"

fun as_float :: "pynum \<Rightarrow> error + pyfloat" where
  "as_float (NInt i) = to_float i"
| "as_float (NFloat f) = Inr f"

text \<open>
  \<open>a + b\<close>, \<open>a - b\<close> and \<open>a * b\<close> on numbers: exact on two ints, otherwise both
  operands are taken as floats.
\<close>

fun num_add :: "pynum \<Rightarrow> pynum \<Rightarrow> error + pynum" where
  "num_add (NInt a) (NInt b) = Inr (NInt (a + b))"
| "num_add a b = and_then (as_float a) (\<lambda>x. and_then (as_float b) (\<lambda>y. Inr (NFloat (fl_add x y))))"

fun num_sub :: "pynum \<Rightarrow> pynum \<Rightarrow> error + pynum" where
  "num_sub (NInt a) (NInt b) = Inr (NInt (a - b))"
| "num_sub a b = and_then (as_float a) (\<lambda>x. and_then (as_float b) (\<lambda>y. Inr (NFloat (fl_sub x y))))"

fun num_mul :: "pynum \<Rightarrow> pynum \<Rightarrow> error + pynum" where
  "num_mul (NInt a) (NInt b) = Inr (NInt (a * b))"
| "num_mul a b = and_then (as_float a) (\<lambda>x. and_then (as_float b) (\<lambda>y. Inr (NFloat (fl_mul x y))))"

text \<open>
  \<open>a / b\<close>: true division always gives a float. On two ints the exact quotient is
  rounded once; a quotient too large for a float raises OverflowError.
\<close>

fun num_truediv :: "pynum \<Rightarrow> pynum \<Rightarrow> error + pynum" where
  "num_truediv (NInt a) (NInt b) =
     (if b = 0 then Inl ZeroDivisionError
      else case round_binary64 (of_int a / of_int b) of
             Fin y \<Rightarrow> Inr (NFloat (Fin y)) | _ \<Rightarrow> Inl OverflowError)"
| "num_truediv a b =
     and_then (as_float a) (\<lambda>x. and_then (as_float b) (\<lambda>y.
     and_then (fl_div x y) (\<lambda>q. Inr (NFloat q))))"

text \<open>
  \<open>sum(xs)\<close> starts from the int \<open>0\<close> and adds from left to right; an entry that is
  not a number raises TypeError. Ints are added exactly. Floats are added one by one,
  each sum rounded, as CPython does before version 3.12 (later versions compensate the
  rounding of float sums).
\<close>

fun sum_from :: "pynum \<Rightarrow> pyval list \<Rightarrow> error + pynum" where
  "sum_from acc [] = Inr acc"
| "sum_from acc (v # vs) =
     and_then (as_num v) (\<lambda>n. and_then (num_add acc n) (\<lambda>acc'. sum_from acc' vs))"

definition py_sum :: "pyval list \<Rightarrow> error + pynum" where
  "py_sum vs = sum_from (NInt 0) vs"

text \<open>\<open>len(v)\<close>: the number of code points of a \<open>str\<close>; TypeError for \<open>None\<close> and numbers.\<close>

definition py_len :: "pyval \<Rightarrow> error + int" where
  "py_len v = (case v of VStr s \<Rightarrow> Inr (int (length s)) | _ \<Rightarrow> Inl TypeError)"

section \<open>Datasets\<close>

text \<open>
  A dataset has named columns and rows; a row is the dictionary handed to a mapped
  function. \<open>Dataset.map\<close> and \<open>Dataset.filter\<close> belong to the \<open>datasets\<close> library.
  The model is of a map run by one process that writes the corpus as one batch:
  \<open>num_proc\<close> shards the corpus, and the library's writer takes the rows of a shard
  in batches.
\<close>

record dataset =
  column_names :: "string list"
  rows :: "pydict list"

text \<open>\<open>len(dataset)\<close>\<close>

definition ds_len :: "dataset \<Rightarrow> int" where
  "ds_len ds = int (length (rows ds))"

text \<open>\<open>dataset[k]\<close>: the values of a column, \<open>None\<close> for a null entry; KeyError for an unknown column.\<close>

definition column :: "dataset \<Rightarrow> string \<Rightarrow> error + pyval list" where
  "column ds k =
     (if k \<in> set (column_names ds)
      then Inr (map (\<lambda>r. case r k of None \<Rightarrow> VNone | Some v \<Rightarrow> v) (rows ds))
      else Inl (KeyError k))"

text \<open>
  The rows of a map, each updated with the dictionary that \<open>f\<close> returns for it, in
  order; an exception of \<open>f\<close> ends the map.
\<close>

fun update_rows :: "(pydict \<Rightarrow> error + pydict) \<Rightarrow> pydict list \<Rightarrow> error + pydict list" where
  "update_rows f [] = Inr []"
| "update_rows f (r # rs) =
     and_then (f r) (\<lambda>u. and_then (update_rows f rs) (\<lambda>us. Inr ((r ++ u) # us)))"

text \<open>
  The library writes the updated rows as a table whose columns it reads off the first
  of them. The columns a map adds are therefore the keys that the first updated row
  holds and the dataset has no column for, in the order of \<open>new_keys\<close>: the keys that
  the mapped function can return, in the order it sets them.
\<close>

definition new_columns :: "string list \<Rightarrow> string list \<Rightarrow> pydict \<Rightarrow> string list" where
  "new_columns cols new_keys first = filter (\<lambda>k. k \<notin> set cols \<and> first k \<noteq> None) new_keys"

text \<open>A row as the table stores it: a returned key that is not a column is left out.\<close>

definition stored_row :: "string list \<Rightarrow> string list \<Rightarrow> string list \<Rightarrow> pydict \<Rightarrow> pydict" where
  "stored_row cols added new_keys d =
     (\<lambda>k. if k \<in> set new_keys \<and> k \<notin> set cols \<and> k \<notin> set added then None else d k)"

text \<open>
  Writing the table, column by column: KeyError for the first added column that one of
  the rows lacks.
\<close>

definition write_rows ::
  "string list \<Rightarrow> string list \<Rightarrow> string list \<Rightarrow> pydict list \<Rightarrow> error + pydict list" where
  "write_rows cols added new_keys ds =
     (case filter (\<lambda>k. list_ex (\<lambda>d. d k = None) ds) added of
        k # ks \<Rightarrow> Inl (KeyError k)
      | [] \<Rightarrow> Inr (map (stored_row cols added new_keys) ds))"

text \<open>
  \<open>dataset.map(f)\<close>: the rows are updated and written. A dataset without rows is
  returned as it is, with no new column.
\<close>

definition dataset_map :: "(pydict \<Rightarrow> error + pydict) \<Rightarrow> string list \<Rightarrow> dataset \<Rightarrow> error + dataset" where
  "dataset_map f new_keys ds =
     and_then (update_rows f (rows ds)) (\<lambda>updated.
       case updated of
         [] \<Rightarrow> Inr ds
       | first # rest \<Rightarrow>
           (let added = new_columns (column_names ds) new_keys first
            in and_then (write_rows (column_names ds) added new_keys updated) (\<lambda>ws.
                 Inr (ds\<lparr>column_names := column_names ds @ added, rows := ws\<rparr>))))"

text \<open>\<open>dataset.filter(p)\<close>: the rows on which \<open>p\<close> holds, in order; an exception of \<open>p\<close> ends it.\<close>

fun filter_rows :: "(pydict \<Rightarrow> error + bool) \<Rightarrow> pydict list \<Rightarrow> error + pydict list" where
  "filter_rows p [] = Inr []"
| "filter_rows p (r # rs) =
     and_then (p r) (\<lambda>keep. and_then (filter_rows p rs) (\<lambda>ks.
       Inr (if keep then r # ks else ks)))"

definition dataset_filter :: "(pydict \<Rightarrow> error + bool) \<Rightarrow> dataset \<Rightarrow> error + dataset" where
  "dataset_filter p ds = and_then (filter_rows p (rows ds)) (\<lambda>rs. Inr (ds\<lparr>rows := rs\<rparr>))"

section \<open>The filter stage\<close>

datatype level = INFO | WARNING

text \<open>
  The log lines of the script, each with the values it formats. Elapsed times are not
  part of the model.
\<close>

datatype message =
    JobStarted
  | LoadingDataset
  | DatasetLoaded
  | DatasetInfo
  | AddingSizeColumn
  | ApplyingFilters
  | ParametersHeader
  | BasicParameters int pyfloat pyfloat
  | StarsParameters int
  | CommentsParameters pyfloat pyfloat
  | FilteringCompleted
  | SizeBefore int pynum
  | SizeAfter int pynum
  | PercentRemovedFiles pynum
  | PercentRemovedVolume pynum
  | StreamingToDisk
  | SavedAt string string
  | OutputDirExists string string
  | ProcessingCompleted

type_synonym log = "(level \<times> message) list"

text \<open>The local variables of \<open>filter_dataset_with_stats\<close> that it logs.\<close>

record CorpusStats =
  initial_size :: int
  initial_size_gb :: pynum
  final_size :: int
  final_size_gb :: pynum
  rejected_pct :: pynum
  size_reduction_pct :: pynum

text \<open>\<open>sum(dataset["size"])\<close>\<close>

definition byte_total :: "dataset \<Rightarrow> error + pynum" where
  "byte_total ds = and_then (column ds ''size'') py_sum"

text \<open>\<open>sum(dataset["size"]) / 1e9\<close>\<close>

definition size_gb :: "dataset \<Rightarrow> error + pynum" where
  "size_gb ds = and_then (byte_total ds) (\<lambda>total. num_truediv total (NFloat (Fin 1000000000)))"

text \<open>\<open>(a - b) * 100 / a\<close>, the expression of both percentages.\<close>

definition percentage :: "pynum \<Rightarrow> pynum \<Rightarrow> error + pynum" where
  "percentage a b =
     and_then (num_sub a b) (\<lambda>d.
     and_then (num_mul d (NInt 100)) (\<lambda>p.
       num_truediv p a))"

text \<open>\<open>lambda x: x["accepted"] == 1\<close>\<close>

definition is_accepted :: "pydict \<Rightarrow> error + bool" where
  "is_accepted x = and_then (getitem x ''accepted'') (\<lambda>v. Inr (py_eq_num v (NInt 1)))"

text \<open>The keys that \<open>combined_filter_map\<close> can add to a row, in the order it sets them.\<close>

definition stats_columns :: "string list" where
  "stats_columns = basic_tags @ [''stars'', ''stars_rejected'', ''nl_ratio'', ''comments_rejected'', ''accepted'']"

text \<open>The computation of \<open>filter_dataset_with_stats\<close>: the kept rows and the statistics.\<close>

definition filter_stats ::
  "(pystr \<Rightarrow> pystr) \<Rightarrow> nl_oracle \<Rightarrow> dataset \<Rightarrow> 'a FilteringArguments_scheme \<Rightarrow> error + (dataset \<times> CorpusStats)" where
  "filter_stats lower get_nl_ratio ds args =
     and_then (size_gb ds) (\<lambda>initial_gb.
     and_then (dataset_map (\<lambda>example. combined_filter_map lower get_nl_ratio example args)
                 stats_columns ds) (\<lambda>mapped.
     and_then (dataset_filter is_accepted mapped) (\<lambda>filtered_dataset.
     and_then (size_gb filtered_dataset) (\<lambda>final_gb.
     and_then (percentage (NInt (ds_len ds)) (NInt (ds_len filtered_dataset))) (\<lambda>rejected.
     and_then (percentage initial_gb final_gb) (\<lambda>reduction.
       Inr (filtered_dataset,
            \<lparr>initial_size = ds_len ds, initial_size_gb = initial_gb,
             final_size = ds_len filtered_dataset, final_size_gb = final_gb,
             rejected_pct = rejected, size_reduction_pct = reduction\<rparr>)))))))"

definition parameter_lines :: "'a FilteringArguments_scheme \<Rightarrow> log" where
  "parameter_lines args =
     [(INFO, ApplyingFilters), (INFO, ParametersHeader),
      (INFO, BasicParameters (line_max args) (line_mean args) (alpha_frac args)),
      (INFO, StarsParameters (threshold_stars args)),
      (INFO, CommentsParameters (min_threshold_comments args) (max_threshold_comments args))]"

definition stats_lines :: "CorpusStats \<Rightarrow> log" where
  "stats_lines st =
     [(INFO, FilteringCompleted),
      (INFO, SizeBefore (initial_size st) (initial_size_gb st)),
      (INFO, SizeAfter (final_size st) (final_size_gb st)),
      (INFO, PercentRemovedFiles (rejected_pct st)),
      (INFO, PercentRemovedVolume (size_reduction_pct st))]"

text \<open>
  \<open>filter_dataset_with_stats\<close> returns the kept rows; the statistics only reach the log,
  which is threaded through. An exception leaves no result.
\<close>

definition filter_dataset_with_stats ::
  "(pystr \<Rightarrow> pystr) \<Rightarrow> nl_oracle \<Rightarrow> dataset \<Rightarrow> 'a FilteringArguments_scheme \<Rightarrow> log \<Rightarrow> error + (dataset \<times> log)" where
  "filter_dataset_with_stats lower get_nl_ratio ds args lg =
     and_then (filter_stats lower get_nl_ratio ds args) (\<lambda>(filtered_dataset, st).
       Inr (filtered_dataset, lg @ parameter_lines args @ stats_lines st))"

section \<open>Persistence\<close>

text \<open>
  \<open>save_manual_shards\<close> of \<open>utils.manual_sharding\<close> is an external collaborator: given
  the dataset and the destination it returns or raises, and leaves the outside world
  (disk, hub) in a new state.
\<close>

type_synonym 'w writer =
  "dataset \<Rightarrow> string \<Rightarrow> string \<Rightarrow> string \<Rightarrow> string \<Rightarrow> 'w \<Rightarrow> (error + unit) \<times> 'w"

text \<open>
  \<open>stream_to_disk\<close> returns \<open>None\<close> on both paths of the \<open>try\<close>; an exception other
  than FileExistsError propagates. The result is the log when the function returns, or
  the exception, and the world after the call. What a run that raises has logged is not
  part of the model.
\<close>

definition stream_to_disk ::
  "'w writer \<Rightarrow> dataset \<Rightarrow> 'a FilteringArguments_scheme \<Rightarrow> log \<times> 'w \<Rightarrow> (error + log) \<times> 'w" where
  "stream_to_disk save_manual_shards ds args st =
     (let lg = fst st @ [(INFO, StreamingToDisk)]
      in case save_manual_shards ds (hub_username args) (remote_repo args) (out_path args)
                (subset args) (snd st) of
           (Inr u, w) \<Rightarrow> (Inr (lg @ [(INFO, SavedAt (out_path args) (subset args))]), w)
         | (Inl e, w) \<Rightarrow>
             if e = FileExistsError
             then (Inr (lg @ [(WARNING, OutputDirExists (out_path args) (subset args))]), w)
             else (Inl e, w))"

text \<open>
  The spec's name for the path taken by \<open>stream_to_disk\<close>, read off the last line it
  logged.
\<close>

datatype outcome = Saved | SkippedExisting

fun outcome_of :: "level \<times> message \<Rightarrow> outcome option" where
  "outcome_of (INFO, SavedAt p s) = Some Saved"
| "outcome_of (WARNING, OutputDirExists p s) = Some SkippedExisting"
| "outcome_of _ = None"

definition persist_outcome :: "(error + log) \<times> 'w \<Rightarrow> outcome option" where
  "persist_outcome r =
     (case fst r of
        Inl e \<Rightarrow> None
      | Inr lg \<Rightarrow> if lg = [] then None else outcome_of (last lg))"

section \<open>The script\<close>

text \<open>\<open>lambda example: {"size": len(example["content"])}\<close>\<close>

definition content_size :: "pydict \<Rightarrow> error + pydict" where
  "content_size example =
     and_then (getitem example ''content'') (\<lambda>c.
     and_then (py_len c) (\<lambda>n. Inr [''size'' \<mapsto> VInt n]))"

text \<open>The block \<open>if "size" not in dataset.column_names: ...\<close>\<close>

definition add_size_column :: "dataset \<Rightarrow> log \<Rightarrow> error + (dataset \<times> log)" where
  "add_size_column ds lg =
     (if ''size'' \<notin> set (column_names ds)
      then and_then (dataset_map content_size [''size''] ds) (\<lambda>ds'.
             Inr (ds', lg @ [(INFO, AddingSizeColumn)]))
      else Inr (ds, lg))"

text \<open>
  The body of the script from the loaded dataset on (\<open>load_dataset\<close> is the corpus
  source). The run succeeds when it reaches the last line: the result is then its log.
\<close>

definition startup_lines :: log where
  "startup_lines = [(INFO, JobStarted), (INFO, LoadingDataset), (INFO, DatasetLoaded), (INFO, DatasetInfo)]"

definition run_script ::
  "(pystr \<Rightarrow> pystr) \<Rightarrow> nl_oracle \<Rightarrow> 'w writer \<Rightarrow> 'a FilteringArguments_scheme \<Rightarrow> dataset \<Rightarrow> 'w
     \<Rightarrow> (error + log) \<times> 'w" where
  "run_script lower get_nl_ratio save_manual_shards args loaded w =
     (case add_size_column loaded startup_lines of
        Inl e \<Rightarrow> (Inl e, w)
      | Inr (ds, lg1) \<Rightarrow>
         (case filter_dataset_with_stats lower get_nl_ratio ds args lg1 of
            Inl e \<Rightarrow> (Inl e, w)
          | Inr (filtered_dataset, lg2) \<Rightarrow>
             (case stream_to_disk save_manual_shards filtered_dataset args (lg2, w) of
                (Inl e, w') \<Rightarrow> (Inl e, w')
              | (Inr lg3, w') \<Rightarrow> (Inr (lg3 @ [(INFO, ProcessingCompleted)]), w'))))"

section \<open>The spec's byte length\<close>

text \<open>
  The spec derives \<open>size\<close> as the byte length of \<open>content\<close>. Text is stored as UTF-8:
  a code point takes one to four bytes.
\<close>

definition utf8_width :: "nat \<Rightarrow> nat" where
  "utf8_width c = (if c < 128 then 1 else if c < 2048 then 2 else if c < 65536 then 3 else 4)"

definition byte_length :: "pystr \<Rightarrow> int" where
  "byte_length s = int (sum_list (map utf8_width s))"

section \<open>Concrete inputs\<close>

definition code_points :: "string \<Rightarrow> pystr" where
  "code_points s = map of_char s"

definition ascii_lower :: "pystr \<Rightarrow> pystr" where
  "ascii_lower s = map (\<lambda>c. if 65 \<le> c \<and> c \<le> 90 then c + 32 else c) s"

text \<open>An oracle that returns the same ratio for every record.\<close>

definition const_oracle :: "pyfloat \<Rightarrow> nl_oracle" where
  "const_oracle r = (\<lambda>content lang. Inr r)"

definition default_args :: FilteringArguments where
  "default_args =
     \<lparr>line_max = 1000, line_mean = Fin 100, alpha_frac = Fin (1 / 4), threshold_stars = 5,
      min_threshold_comments = Fin (1 / 100), max_threshold_comments = Fin (8 / 10),
      num_workers = 1, hub_username = ''user'', remote_repo = ''repo'',
      out_path = ''out'', subset = ''data/python''\<rparr>"

text \<open>A record of five bytes of Python with ten stars: under the default thresholds no gate rejects it.\<close>

definition good_record :: pydict where
  "good_record =
     [''content'' \<mapsto> VStr (code_points ''x = 1''),
      ''lang'' \<mapsto> VStr (code_points ''Python''),
      ''max_line_length'' \<mapsto> VInt 5,
      ''avg_line_length'' \<mapsto> VFloat (Fin 5),
      ''alphanum_fraction'' \<mapsto> VFloat (Fin (2 / 5)),
      ''max_stars_count'' \<mapsto> VInt 10,
      ''size'' \<mapsto> VInt 5]"

text \<open>The same record carrying a \<open>stars_rejected\<close> field of its own, as left by an earlier annotation.\<close>

definition stale_tag_record :: pydict where
  "stale_tag_record = good_record(''stars_rejected'' \<mapsto> VInt 1)"

text \<open>A record with a line of 1500 characters that carries a \<open>basic_rejected_avg_line\<close> field of its own.\<close>

definition two_tag_record :: pydict where
  "two_tag_record = good_record(''max_line_length'' \<mapsto> VInt 1500, ''basic_rejected_avg_line'' \<mapsto> VInt 1)"

text \<open>Records with a null stars count, with a stars count on the threshold, and with long lines.\<close>

definition null_stars_record :: pydict where
  "null_stars_record = good_record(''max_stars_count'' \<mapsto> VNone)"

definition boundary_record :: pydict where
  "boundary_record = good_record(''max_stars_count'' \<mapsto> VInt 5)"

definition long_line_record :: pydict where
  "long_line_record = good_record(''max_line_length'' \<mapsto> VInt 1500, ''avg_line_length'' \<mapsto> VFloat (Fin 200))"

section \<open>The spec's percentage formula\<close>

text \<open>
  The spec gives both percentages by one formula over counts and over byte totals:
  \<open>(initial - final) * 100 / initial\<close>. Its exact value is a rational; as a Python
  expression over two ints it is that value rounded once.
\<close>

definition spec_percentage_exact :: "int \<Rightarrow> int \<Rightarrow> rat" where
  "spec_percentage_exact initial final = (of_int initial - of_int final) * 100 / of_int initial"

definition spec_percentage :: "int \<Rightarrow> int \<Rightarrow> error + pynum" where
  "spec_percentage initial final = percentage (NInt initial) (NInt final)"

section \<open>Sizes and projections\<close>

text \<open>The \<open>size\<close> of a record as an int, \<open>0\<close> when it has none.\<close>

definition int_size :: "pydict \<Rightarrow> int" where
  "int_size r = (case r ''size'' of Some (VInt n) \<Rightarrow> n | _ \<Rightarrow> 0)"

text \<open>Every record has an int \<open>size\<close> that is not negative.\<close>

definition sizes_are_bytes :: "pydict list \<Rightarrow> bool" where
  "sizes_are_bytes rs = list_all (\<lambda>r. case r ''size'' of Some (VInt n) \<Rightarrow> 0 \<le> n | _ \<Rightarrow> False) rs"

text \<open>The byte total of the kept rows.\<close>

definition kept_bytes :: "error + (dataset \<times> 'a) \<Rightarrow> error + pynum" where
  "kept_bytes r = and_then r (\<lambda>(d, x). byte_total d)"

text \<open>Projections of a result, \<open>None\<close> when an exception left no result.\<close>

definition stats_of :: "error + (dataset \<times> CorpusStats) \<Rightarrow> CorpusStats option" where
  "stats_of r = (case r of Inl e \<Rightarrow> None | Inr (d, st) \<Rightarrow> Some st)"

definition returned :: "error + 'a \<Rightarrow> 'a option" where
  "returned r = (case r of Inl e \<Rightarrow> None | Inr x \<Rightarrow> Some x)"

text \<open>The evaluator returns on the record with \<open>accepted = 1\<close>.\<close>

definition accepts ::
  "(pystr \<Rightarrow> pystr) \<Rightarrow> nl_oracle \<Rightarrow> 'a FilteringArguments_scheme \<Rightarrow> pydict \<Rightarrow> bool" where
  "accepts lower get_nl_ratio args r =
     (output_field ''accepted'' (combined_filter_map lower get_nl_ratio r args) = Some (VInt 1))"

text \<open>
  A row of the filter stage with the evaluator's output it was written from: they agree
  on every field that is not a rejection tag.
\<close>

definition written_from :: "pydict \<Rightarrow> pydict \<Rightarrow> bool" where
  "written_from out w = (\<forall>k. k \<notin> set rejection_tags \<longrightarrow> w k = out k)"

text \<open>The rejection tags that a dictionary holds are those of \<open>T\<close>.\<close>

definition holds_tags :: "string set \<Rightarrow> pydict \<Rightarrow> bool" where
  "holds_tags T out = list_all (\<lambda>k. (out k \<noteq> None) = (k \<in> T)) rejection_tags"

section \<open>Concrete corpora\<close>

definition corpus_columns :: "string list" where
  "corpus_columns = [''content'', ''lang'', ''max_line_length'', ''avg_line_length'',
                     ''alphanum_fraction'', ''max_stars_count'', ''size'']"

text \<open>Two records of 3 and 1 bytes; the second has too few stars.\<close>

definition small_corpus :: dataset where
  "small_corpus =
     \<lparr>column_names = corpus_columns,
      rows = [good_record(''size'' \<mapsto> VInt 3),
              good_record(''size'' \<mapsto> VInt 1, ''max_stars_count'' \<mapsto> VInt 0)]\<rparr>"

text \<open>The same two records with the one of too few stars first.\<close>

definition rejected_first_corpus :: dataset where
  "rejected_first_corpus =
     \<lparr>column_names = corpus_columns,
      rows = [good_record(''size'' \<mapsto> VInt 1, ''max_stars_count'' \<mapsto> VInt 0),
              good_record(''size'' \<mapsto> VInt 3)]\<rparr>"

definition empty_corpus :: dataset where
  "empty_corpus = \<lparr>column_names = corpus_columns, rows = []\<rparr>"

text \<open>An oracle that raises on empty content.\<close>

definition fragile_oracle :: nl_oracle where
  "fragile_oracle content lang =
     (case content of
        VStr s \<Rightarrow> if s = [] then Inl (ExternalError ''empty content'') else Inr (Fin (1 / 2))
      | _ \<Rightarrow> Inl TypeError)"

definition empty_content_record :: pydict where
  "empty_content_record = good_record(''content'' \<mapsto> VStr [], ''size'' \<mapsto> VInt 0)"

definition corpus_with_empty_file :: dataset where
  "corpus_with_empty_file =
     \<lparr>column_names = corpus_columns, rows = [good_record, empty_content_record, good_record]\<rparr>"

text \<open>An oracle that returns the degenerate ratio \<open>0.0\<close> on empty content.\<close>

definition tolerant_oracle :: nl_oracle where
  "tolerant_oracle content lang =
     (case content of
        VStr s \<Rightarrow> Inr (if s = [] then Fin 0 else Fin (1 / 2))
      | _ \<Rightarrow> Inl TypeError)"

text \<open>A record without \<open>size\<close> whose content is the single character U+00E9.\<close>

definition accent_record :: pydict where
  "accent_record =
     [''content'' \<mapsto> VStr [233],
      ''lang'' \<mapsto> VStr (code_points ''Python''),
      ''max_line_length'' \<mapsto> VInt 1,
      ''avg_line_length'' \<mapsto> VFloat (Fin 1),
      ''alphanum_fraction'' \<mapsto> VFloat (Fin 1),
      ''max_stars_count'' \<mapsto> VInt 10]"

definition accent_corpus :: dataset where
  "accent_corpus =
     \<lparr>column_names = [''content'', ''lang'', ''max_line_length'', ''avg_line_length'',
                      ''alphanum_fraction'', ''max_stars_count''],
      rows = [accent_record]\<rparr>"

text \<open>A field of the \<open>i\<close>-th row of a returned dataset.\<close>

definition row_field :: "nat \<Rightarrow> string \<Rightarrow> dataset option \<Rightarrow> pyval option" where
  "row_field i k r =
     (case r of None \<Rightarrow> None
      | Some d \<Rightarrow> if i < length (rows d) then (rows d ! i) k else None)"

text \<open>Two records of 3 and 1 bytes that pass every gate.\<close>

definition clean_corpus :: dataset where
  "clean_corpus =
     \<lparr>column_names = corpus_columns,
      rows = [good_record(''size'' \<mapsto> VInt 3), good_record(''size'' \<mapsto> VInt 1)]\<rparr>"

text \<open>A writer that finds the destination populated: it raises FileExistsError and writes nothing.\<close>

definition refusing_writer :: "nat writer" where
  "refusing_writer ds user repo path sub w = (Inl FileExistsError, w)"

section \<open>Auxiliary predicates\<close>

text \<open>No gate rejects: the three basic conditions, the stars condition and the comments condition are all false.\<close>

definition all_pass :: "pydict \<Rightarrow> 'a FilteringArguments_scheme \<Rightarrow> pyfloat \<Rightarrow> bool" where
  "all_pass ex args r = (max_line_cond ex args = Inr False \<and> avg_line_cond ex args = Inr False
      \<and> alphanum_cond ex args = Inr False \<and> stars_cond ex args = Inr False \<and> \<not> comments_cond r args)"

definition is_number :: "pyval option \<Rightarrow> bool" where
  "is_number v = (case v of Some (VInt i) \<Rightarrow> True | Some (VFloat f) \<Rightarrow> True | _ \<Rightarrow> False)"

text \<open>
  A record on which no lookup or comparison of the evaluator can raise: the three shape
  fields are numbers, the stars count is absent, null or a number, the content is
  present and the language is a string.
\<close>

definition well_formed_record :: "pydict \<Rightarrow> bool" where
  "well_formed_record ex =
     (is_number (ex ''max_line_length'') \<and> is_number (ex ''avg_line_length'')
      \<and> is_number (ex ''alphanum_fraction'')
      \<and> (ex ''max_stars_count'' = None \<or> ex ''max_stars_count'' = Some VNone
           \<or> is_number (ex ''max_stars_count''))
      \<and> ex ''content'' \<noteq> None
      \<and> (case ex ''lang'' of Some (VStr s) \<Rightarrow> True | _ \<Rightarrow> False))"

section \<open>Properties of the evaluator\<close>

lemma and_then_Inr_E:
  assumes "and_then m f = Inr y"
  obtains x where "m = Inr x" and "f x = Inr y"
  using assms by (cases m) auto

lemma basic_filters_Inr:
  assumes "basic_filters ex args vs = Inr vs'"
  shows "(max_line_cond ex args = Inr True \<and> vs' = (False, (snd vs)(''basic_rejected_max_line'' \<mapsto> VInt 1)))
       \<or> (max_line_cond ex args = Inr False \<and> avg_line_cond ex args = Inr True
            \<and> vs' = (False, (snd vs)(''basic_rejected_avg_line'' \<mapsto> VInt 1)))
       \<or> (max_line_cond ex args = Inr False \<and> avg_line_cond ex args = Inr False
            \<and> alphanum_cond ex args = Inr True
            \<and> vs' = (False, (snd vs)(''basic_rejected_alphanum'' \<mapsto> VInt 1)))
       \<or> (max_line_cond ex args = Inr False \<and> avg_line_cond ex args = Inr False
            \<and> alphanum_cond ex args = Inr False \<and> vs' = vs)"
proof -
  from assms obtain c1 where c1: "max_line_cond ex args = Inr c1"
    by (cases "max_line_cond ex args") (simp_all add: basic_filters_def)
  show ?thesis
  proof (cases c1)
    case True
    with assms c1 show ?thesis by (simp add: basic_filters_def)
  next
    case n1: False
    with assms c1 obtain c2 where c2: "avg_line_cond ex args = Inr c2"
      by (cases "avg_line_cond ex args") (simp_all add: basic_filters_def)
    show ?thesis
    proof (cases c2)
      case True
      with assms c1 n1 c2 show ?thesis by (simp add: basic_filters_def)
    next
      case n2: False
      with assms c1 n1 c2 obtain c3 where c3: "alphanum_cond ex args = Inr c3"
        by (cases "alphanum_cond ex args") (simp_all add: basic_filters_def)
      from assms c1 n1 c2 n2 c3 show ?thesis
        by (cases c3) (simp_all add: basic_filters_def)
    qed
  qed
qed

lemma stars_filter_Inr:
  assumes "stars_filter ex args vs = Inr vs'"
  shows "(stars_cond ex args = Inr True \<and>
           vs' = (False, (snd vs)(''stars'' \<mapsto> normalized_stars ex, ''stars_rejected'' \<mapsto> VInt 1)))
       \<or> (stars_cond ex args = Inr False \<and>
           vs' = (fst vs, (snd vs)(''stars'' \<mapsto> normalized_stars ex)))"
proof (cases "stars_cond ex args")
  case (Inl e)
  with assms show ?thesis by (simp add: stars_filter_def Let_def)
next
  case (Inr c)
  with assms show ?thesis by (cases c) (auto simp add: stars_filter_def Let_def)
qed

lemma comments_filter_Inr:
  assumes "comments_filter lower orc ex args vs = Inr vs'"
  shows "\<exists>r. nl_ratio_of lower orc ex = Inr r \<and>
          ((comments_cond r args \<and>
             vs' = (False, (snd vs)(''nl_ratio'' \<mapsto> VFloat r, ''comments_rejected'' \<mapsto> VInt 1)))
         \<or> (\<not> comments_cond r args \<and>
             vs' = (fst vs, (snd vs)(''nl_ratio'' \<mapsto> VFloat r))))"
proof (cases "nl_ratio_of lower orc ex")
  case (Inl e)
  with assms show ?thesis by (simp add: comments_filter_def)
next
  case (Inr r)
  with assms show ?thesis
    by (cases "comments_cond r args") (auto simp add: comments_filter_def Let_def)
qed

lemma diagnostics_Inr:
  assumes "diagnostics lower orc ex args = Inr stats"
  shows "\<exists>v1 v2 v3. basic_filters ex args (True, Map.empty) = Inr v1
           \<and> stars_filter ex args v1 = Inr v2
           \<and> comments_filter lower orc ex args v2 = Inr v3
           \<and> stats = (snd v3)(''accepted'' \<mapsto> VInt (if fst v3 then 1 else 0))"
  using assms unfolding diagnostics_def
  by (elim and_then_Inr_E) auto

lemma diagnostics_fields:
  assumes "diagnostics lower orc ex args = Inr stats"
  shows "\<exists>r. nl_ratio_of lower orc ex = Inr r
    \<and> stats ''basic_rejected_max_line'' = (if max_line_cond ex args = Inr True then Some (VInt 1) else None)
    \<and> stats ''basic_rejected_avg_line'' =
        (if max_line_cond ex args = Inr False \<and> avg_line_cond ex args = Inr True then Some (VInt 1) else None)
    \<and> stats ''basic_rejected_alphanum'' =
        (if max_line_cond ex args = Inr False \<and> avg_line_cond ex args = Inr False
            \<and> alphanum_cond ex args = Inr True then Some (VInt 1) else None)
    \<and> stats ''stars'' = Some (normalized_stars ex)
    \<and> stats ''stars_rejected'' = (if stars_cond ex args = Inr True then Some (VInt 1) else None)
    \<and> stats ''nl_ratio'' = Some (VFloat r)
    \<and> stats ''comments_rejected'' = (if comments_cond r args then Some (VInt 1) else None)
    \<and> stats ''accepted'' = Some (VInt (if all_pass ex args r then 1 else 0))
    \<and> (\<forall>k. k \<notin> set stats_columns \<longrightarrow> stats k = None)"
proof -
  from diagnostics_Inr[OF assms] obtain v1 v2 v3 where
    b: "basic_filters ex args (True, Map.empty) = Inr v1" and
    s: "stars_filter ex args v1 = Inr v2" and
    c: "comments_filter lower orc ex args v2 = Inr v3" and
    st: "stats = (snd v3)(''accepted'' \<mapsto> VInt (if fst v3 then 1 else 0))" by blast
  from comments_filter_Inr[OF c] obtain r where r: "nl_ratio_of lower orc ex = Inr r" and
    v3: "(comments_cond r args \<and>
             v3 = (False, (snd v2)(''nl_ratio'' \<mapsto> VFloat r, ''comments_rejected'' \<mapsto> VInt 1)))
         \<or> (\<not> comments_cond r args \<and>
             v3 = (fst v2, (snd v2)(''nl_ratio'' \<mapsto> VFloat r)))" by blast
  note v1 = basic_filters_Inr[OF b] and v2 = stars_filter_Inr[OF s]
  have 1: "stats ''basic_rejected_max_line'' = (if max_line_cond ex args = Inr True then Some (VInt 1) else None)"
    using v1 v2 v3 unfolding st by auto
  have 2: "stats ''basic_rejected_avg_line'' =
        (if max_line_cond ex args = Inr False \<and> avg_line_cond ex args = Inr True then Some (VInt 1) else None)"
    using v1 v2 v3 unfolding st by auto
  have 3: "stats ''basic_rejected_alphanum'' =
        (if max_line_cond ex args = Inr False \<and> avg_line_cond ex args = Inr False
            \<and> alphanum_cond ex args = Inr True then Some (VInt 1) else None)"
    using v1 v2 v3 unfolding st by auto
  have 4: "stats ''stars'' = Some (normalized_stars ex)"
    using v2 v3 unfolding st by auto
  have 5: "stats ''stars_rejected'' = (if stars_cond ex args = Inr True then Some (VInt 1) else None)"
    using v1 v2 v3 unfolding st by auto
  have 6: "stats ''nl_ratio'' = Some (VFloat r)"
    using v3 unfolding st by auto
  have 7: "stats ''comments_rejected'' = (if comments_cond r args then Some (VInt 1) else None)"
    using v1 v2 v3 unfolding st by auto
  have 8: "stats ''accepted'' = Some (VInt (if all_pass ex args r then 1 else 0))"
    using v1 v2 v3 unfolding st all_pass_def by auto
  have 9: "\<forall>k. k \<notin> set stats_columns \<longrightarrow> stats k = None"
    using v1 v2 v3 unfolding st stats_columns_def basic_tags_def by auto
  from r 1 2 3 4 5 6 7 8 9 show ?thesis by blast
qed

lemmas eval_defs = Let_def
  diagnostics_def basic_filters_def stars_filter_def comments_filter_def nl_ratio_of_def
  max_line_cond_def avg_line_cond_def alphanum_cond_def stars_cond_def comments_cond_def
  normalized_stars_def getitem_def str_lower_def py_gt_def py_lt_def py_le_def fl_le_def
  const_oracle_def default_args_def good_record_def

lemma good_record_diagnostics:
  "diagnostics ascii_lower (const_oracle (Fin (1 / 2))) good_record default_args =
     Inr [''stars'' \<mapsto> VInt 10, ''nl_ratio'' \<mapsto> VFloat (Fin (1 / 2)), ''accepted'' \<mapsto> VInt 1]"
  by (simp add: eval_defs)

lemma stale_diagnostics:
  "diagnostics ascii_lower (const_oracle (Fin (1 / 2))) stale_tag_record default_args =
     Inr [''stars'' \<mapsto> VInt 10, ''nl_ratio'' \<mapsto> VFloat (Fin (1 / 2)), ''accepted'' \<mapsto> VInt 1]"
  by (simp add: eval_defs stale_tag_record_def)

lemma two_tag_diagnostics:
  "diagnostics ascii_lower (const_oracle (Fin (1 / 2))) two_tag_record default_args =
     Inr [''basic_rejected_max_line'' \<mapsto> VInt 1, ''stars'' \<mapsto> VInt 10,
          ''nl_ratio'' \<mapsto> VFloat (Fin (1 / 2)), ''accepted'' \<mapsto> VInt 0]"
  by (simp add: eval_defs two_tag_record_def)

text \<open>
  C1, as stated, fails on a record that already carries a field named like a rejection
  tag: the merge keeps the record's own field, so the output has \<open>accepted = 1\<close> and
  \<open>stars_rejected\<close> at once.
\<close>

theorem accepted_with_stale_tag:
  "output_field ''accepted''
      (combined_filter_map ascii_lower (const_oracle (Fin (1 / 2))) stale_tag_record default_args) = Some (VInt 1)
   \<and> output_field ''stars_rejected''
      (combined_filter_map ascii_lower (const_oracle (Fin (1 / 2))) stale_tag_record default_args) = Some (VInt 1)"
  unfolding combined_filter_map_def stale_diagnostics
  by (simp add: output_field_def stale_tag_record_def)

text \<open>
  C3, as stated, fails on a record that already carries a field named like a basic tag:
  the evaluator attaches \<open>basic_rejected_max_line\<close> and the merge keeps the record's
  \<open>basic_rejected_avg_line\<close>, so the output has two basic tags.
\<close>

theorem two_basic_tags_in_output:
  "output_field ''basic_rejected_max_line''
      (combined_filter_map ascii_lower (const_oracle (Fin (1 / 2))) two_tag_record default_args) = Some (VInt 1)
   \<and> output_field ''basic_rejected_avg_line''
      (combined_filter_map ascii_lower (const_oracle (Fin (1 / 2))) two_tag_record default_args) = Some (VInt 1)"
  unfolding combined_filter_map_def two_tag_diagnostics
  by (simp add: output_field_def two_tag_record_def)

lemma combined_Inr:
  assumes "combined_filter_map lower orc ex args = Inr out"
  obtains stats where "diagnostics lower orc ex args = Inr stats" and "out = ex ++ stats"
  using assms unfolding combined_filter_map_def by (elim and_then_Inr_E) auto

lemma basic_filters_downgrade: "basic_filters ex args vs = Inr vs' \<Longrightarrow> fst vs' \<Longrightarrow> fst vs"
  using basic_filters_Inr[of ex args vs vs'] by auto

lemma stars_filter_downgrade: "stars_filter ex args vs = Inr vs' \<Longrightarrow> fst vs' \<Longrightarrow> fst vs"
  using stars_filter_Inr[of ex args vs vs'] by auto

lemma comments_filter_downgrade: "comments_filter lower orc ex args vs = Inr vs' \<Longrightarrow> fst vs' \<Longrightarrow> fst vs"
  using comments_filter_Inr[of lower orc ex args vs vs'] by auto

lemma accepted_is_final_validity:
  assumes "comments_filter lower orc ex args v2 = Inr v3"
    and "stats = (snd v3)(''accepted'' \<mapsto> VInt (if fst v3 then 1 else 0))"
  shows "(stats ''accepted'' = Some (VInt 1)) = fst v3"
  using assms by simp

lemma no_tag_iff_all_pass:
  assumes "diagnostics lower orc ex args = Inr stats"
  shows "(stats ''accepted'' = Some (VInt 1)) = (\<forall>t\<in>set rejection_tags. stats t = None)"
proof -
  from diagnostics_fields[OF assms] obtain r where
    f: "stats ''basic_rejected_max_line'' = (if max_line_cond ex args = Inr True then Some (VInt 1) else None)"
     "stats ''basic_rejected_avg_line'' =
        (if max_line_cond ex args = Inr False \<and> avg_line_cond ex args = Inr True then Some (VInt 1) else None)"
     "stats ''basic_rejected_alphanum'' =
        (if max_line_cond ex args = Inr False \<and> avg_line_cond ex args = Inr False
            \<and> alphanum_cond ex args = Inr True then Some (VInt 1) else None)"
     "stats ''stars_rejected'' = (if stars_cond ex args = Inr True then Some (VInt 1) else None)"
     "stats ''comments_rejected'' = (if comments_cond r args then Some (VInt 1) else None)"
     "stats ''accepted'' = Some (VInt (if all_pass ex args r then 1 else 0))"
    by blast
  from diagnostics_Inr[OF assms] obtain v1 v2 where
    b: "basic_filters ex args (True, Map.empty) = Inr v1" and
    s: "stars_filter ex args v1 = Inr v2" by blast
  from stars_filter_Inr[OF s] obtain c4 where c4: "stars_cond ex args = Inr c4" by blast
  note tags = rejection_tags_def basic_tags_def all_pass_def
  from basic_filters_Inr[OF b] consider
      (max) "max_line_cond ex args = Inr True"
    | (avg) "max_line_cond ex args = Inr False" "avg_line_cond ex args = Inr True"
    | (alnum) "max_line_cond ex args = Inr False" "avg_line_cond ex args = Inr False"
        "alphanum_cond ex args = Inr True"
    | (pass) "max_line_cond ex args = Inr False" "avg_line_cond ex args = Inr False"
        "alphanum_cond ex args = Inr False"
    by blast
  then show ?thesis
  proof cases
    case max
    then show ?thesis by (simp add: f tags)
  next
    case avg
    then show ?thesis by (simp add: f tags)
  next
    case alnum
    then show ?thesis by (simp add: f tags)
  next
    case pass
    then show ?thesis using c4 by (cases c4) (simp_all add: f tags)
  qed
qed

text \<open>
  C1 (amended). Whenever the evaluator returns, \<open>accepted\<close> is \<open>1\<close> or \<open>0\<close>, and it
  is \<open>1\<close> exactly when the evaluator attached none of the five rejection tags; for a
  record that carries no field named like a rejection tag this is exactly when none of
  them is present in the output. Validity starts as \<open>True\<close>, the stars gate and the
  comments gate can only keep or lower the validity they receive, and \<open>accepted\<close>
  reports the validity after the last gate.
\<close>

theorem accepted_iff_no_tag_attached:
  assumes "combined_filter_map lower orc ex args = Inr out"
  shows "\<exists>stats v1 v2 v3.
      diagnostics lower orc ex args = Inr stats \<and> out = ex ++ stats
    \<and> (out ''accepted'' = Some (VInt 1) \<or> out ''accepted'' = Some (VInt 0))
    \<and> ((out ''accepted'' = Some (VInt 1)) = (\<forall>t\<in>set rejection_tags. stats t = None))
    \<and> ((\<forall>t\<in>set rejection_tags. ex t = None) \<longrightarrow>
         (out ''accepted'' = Some (VInt 1)) = (\<forall>t\<in>set rejection_tags. out t = None))
    \<and> basic_filters ex args (True, Map.empty) = Inr v1
    \<and> stars_filter ex args v1 = Inr v2
    \<and> comments_filter lower orc ex args v2 = Inr v3
    \<and> (fst v3 \<longrightarrow> fst v2) \<and> (fst v2 \<longrightarrow> fst v1)
    \<and> (out ''accepted'' = Some (VInt 1)) = fst v3"
proof -
  from assms obtain stats where d: "diagnostics lower orc ex args = Inr stats"
    and out: "out = ex ++ stats" by (rule combined_Inr)
  from diagnostics_Inr[OF d] obtain v1 v2 v3 where
    b: "basic_filters ex args (True, Map.empty) = Inr v1" and
    s: "stars_filter ex args v1 = Inr v2" and
    c: "comments_filter lower orc ex args v2 = Inr v3" and
    st: "stats = (snd v3)(''accepted'' \<mapsto> VInt (if fst v3 then 1 else 0))" by blast
  have acc: "out ''accepted'' = stats ''accepted''"
    unfolding out st by simp
  have a01: "out ''accepted'' = Some (VInt 1) \<or> out ''accepted'' = Some (VInt 0)"
    unfolding acc st by simp
  have iff: "(out ''accepted'' = Some (VInt 1)) = (\<forall>t\<in>set rejection_tags. stats t = None)"
    unfolding acc by (rule no_tag_iff_all_pass[OF d])
  have fresh: "(\<forall>t\<in>set rejection_tags. ex t = None) \<longrightarrow>
         (out ''accepted'' = Some (VInt 1)) = (\<forall>t\<in>set rejection_tags. out t = None)"
  proof
    assume e: "\<forall>t\<in>set rejection_tags. ex t = None"
    have "\<And>t. t \<in> set rejection_tags \<Longrightarrow> out t = stats t"
      using e unfolding out by (simp add: map_add_def split: option.splits)
    then show "(out ''accepted'' = Some (VInt 1)) = (\<forall>t\<in>set rejection_tags. out t = None)"
      unfolding iff by simp
  qed
  have fin: "(out ''accepted'' = Some (VInt 1)) = fst v3"
    unfolding acc by (rule accepted_is_final_validity[OF c st])
  have mono1: "fst v3 \<longrightarrow> fst v2"
    using comments_filter_downgrade[OF c] by blast
  have mono2: "fst v2 \<longrightarrow> fst v1"
    using stars_filter_downgrade[OF s] by blast
  show ?thesis
    apply (rule exI[of _ stats], rule exI[of _ v1], rule exI[of _ v2], rule exI[of _ v3])
    apply (intro conjI)
    by (fact d out a01 iff fresh b s c fin mono1 mono2)+
qed

text \<open>C1 (amended) on the record that passes every gate: it carries no tag, it is accepted, and its output holds no tag.\<close>

theorem accepted_iff_no_tag_attached_witness:
  "good_record ''basic_rejected_max_line'' = None
   \<and> good_record ''basic_rejected_avg_line'' = None
   \<and> good_record ''basic_rejected_alphanum'' = None
   \<and> good_record ''stars_rejected'' = None
   \<and> good_record ''comments_rejected'' = None
   \<and> output_field ''accepted''
        (combined_filter_map ascii_lower (const_oracle (Fin (1 / 2))) good_record default_args) = Some (VInt 1)
   \<and> output_field ''basic_rejected_max_line''
        (combined_filter_map ascii_lower (const_oracle (Fin (1 / 2))) good_record default_args) = None
   \<and> output_field ''basic_rejected_avg_line''
        (combined_filter_map ascii_lower (const_oracle (Fin (1 / 2))) good_record default_args) = None
   \<and> output_field ''basic_rejected_alphanum''
        (combined_filter_map ascii_lower (const_oracle (Fin (1 / 2))) good_record default_args) = None
   \<and> output_field ''stars_rejected''
        (combined_filter_map ascii_lower (const_oracle (Fin (1 / 2))) good_record default_args) = None
   \<and> output_field ''comments_rejected''
        (combined_filter_map ascii_lower (const_oracle (Fin (1 / 2))) good_record default_args) = None"
proof -
  let ?out = "good_record ++ [''stars'' \<mapsto> VInt 10, ''nl_ratio'' \<mapsto> VFloat (Fin (1 / 2)), ''accepted'' \<mapsto> VInt 1]"
  have ret: "combined_filter_map ascii_lower (const_oracle (Fin (1 / 2))) good_record default_args = Inr ?out"
    unfolding combined_filter_map_def good_record_diagnostics by simp
  have fresh: "\<forall>t\<in>set rejection_tags. good_record t = None"
    by (simp add: rejection_tags_def basic_tags_def good_record_def)
  have acc: "?out ''accepted'' = Some (VInt 1)" by simp
  from accepted_iff_no_tag_attached[OF ret] fresh acc
  have "\<forall>t\<in>set rejection_tags. ?out t = None" by blast
  with fresh acc show ?thesis
    unfolding ret output_field_def by (simp add: rejection_tags_def basic_tags_def)
qed

lemma fl_eq_imp_fl_le: "fl_eq a b \<Longrightarrow> fl_le a b"
  by (simp add: fl_le_def)

lemma py_eq_num_imp_py_le: "py_eq_num v t \<Longrightarrow> py_le v t = Inr True"
  by (cases "as_num v") (simp_all add: py_eq_num_def py_le_def fl_le_def)

lemma output_lookup:
  assumes "out = ex ++ stats" and "stats k = Some v"
  shows "out k = Some v"
  using assms by simp

text \<open>
  C2. Whenever the evaluator returns: if the normalized stars value equals
  \<open>threshold_stars\<close> (Python's \<open>==\<close>), the output has \<open>stars_rejected = 1\<close> and
  \<open>accepted = 0\<close>; and if the ratio returned by the oracle, which is the output's
  \<open>nl_ratio\<close>, equals \<open>min_threshold_comments\<close> or \<open>max_threshold_comments\<close>, the
  output has \<open>comments_rejected = 1\<close> and \<open>accepted = 0\<close>.
\<close>

theorem boundary_values_reject:
  assumes "combined_filter_map lower orc ex args = Inr out"
  shows "(py_eq_num (normalized_stars ex) (NInt (threshold_stars args)) \<longrightarrow>
            out ''stars_rejected'' = Some (VInt 1) \<and> out ''accepted'' = Some (VInt 0))
       \<and> (\<exists>r. nl_ratio_of lower orc ex = Inr r \<and> out ''nl_ratio'' = Some (VFloat r)
            \<and> (fl_eq r (min_threshold_comments args) \<or> fl_eq r (max_threshold_comments args) \<longrightarrow>
                  out ''comments_rejected'' = Some (VInt 1) \<and> out ''accepted'' = Some (VInt 0)))"
proof -
  from assms obtain stats where d: "diagnostics lower orc ex args = Inr stats"
    and out: "out = ex ++ stats" by (rule combined_Inr)
  from diagnostics_fields[OF d] obtain r where
    r: "nl_ratio_of lower orc ex = Inr r" and
    sr: "stats ''stars_rejected'' = (if stars_cond ex args = Inr True then Some (VInt 1) else None)" and
    nl: "stats ''nl_ratio'' = Some (VFloat r)" and
    cr: "stats ''comments_rejected'' = (if comments_cond r args then Some (VInt 1) else None)" and
    ac: "stats ''accepted'' = Some (VInt (if all_pass ex args r then 1 else 0))"
    by blast
  have stars: "out ''stars_rejected'' = Some (VInt 1) \<and> out ''accepted'' = Some (VInt 0)"
    if eq: "py_eq_num (normalized_stars ex) (NInt (threshold_stars args))"
  proof -
    from py_eq_num_imp_py_le[OF eq] have c: "stars_cond ex args = Inr True"
      by (simp add: stars_cond_def)
    then have "\<not> all_pass ex args r" by (simp add: all_pass_def)
    with c sr ac show ?thesis by (simp add: out)
  qed
  have comments: "out ''comments_rejected'' = Some (VInt 1) \<and> out ''accepted'' = Some (VInt 0)"
    if eq: "fl_eq r (min_threshold_comments args) \<or> fl_eq r (max_threshold_comments args)"
  proof -
    from eq have c: "comments_cond r args"
      by (cases r; cases "min_threshold_comments args"; cases "max_threshold_comments args")
         (auto simp add: comments_cond_def fl_le_def)
    then have "\<not> all_pass ex args r" by (simp add: all_pass_def)
    with c cr ac show ?thesis by (simp add: out)
  qed
  have "out ''nl_ratio'' = Some (VFloat r)" using nl by (simp add: out)
  with r stars comments show ?thesis by blast
qed

lemma boundary_diagnostics:
  "diagnostics ascii_lower (const_oracle (Fin (1 / 100))) boundary_record default_args =
     Inr [''stars'' \<mapsto> VInt 5, ''stars_rejected'' \<mapsto> VInt 1, ''nl_ratio'' \<mapsto> VFloat (Fin (1 / 100)),
          ''comments_rejected'' \<mapsto> VInt 1, ''accepted'' \<mapsto> VInt 0]"
  by (simp add: eval_defs boundary_record_def)

text \<open>C2 on a record with stars on the threshold and a ratio on the lower bound: both gates reject.\<close>

theorem boundary_values_reject_witness:
  "py_eq_num (normalized_stars boundary_record) (NInt (threshold_stars default_args))
   \<and> nl_ratio_of ascii_lower (const_oracle (Fin (1 / 100))) boundary_record = Inr (Fin (1 / 100))
   \<and> fl_eq (Fin (1 / 100)) (min_threshold_comments default_args)
   \<and> output_field ''stars_rejected''
        (combined_filter_map ascii_lower (const_oracle (Fin (1 / 100))) boundary_record default_args) = Some (VInt 1)
   \<and> output_field ''comments_rejected''
        (combined_filter_map ascii_lower (const_oracle (Fin (1 / 100))) boundary_record default_args) = Some (VInt 1)
   \<and> output_field ''accepted''
        (combined_filter_map ascii_lower (const_oracle (Fin (1 / 100))) boundary_record default_args) = Some (VInt 0)"
proof -
  let ?out = "boundary_record ++ [''stars'' \<mapsto> VInt 5, ''stars_rejected'' \<mapsto> VInt 1,
      ''nl_ratio'' \<mapsto> VFloat (Fin (1 / 100)), ''comments_rejected'' \<mapsto> VInt 1, ''accepted'' \<mapsto> VInt 0]"
  have ret: "combined_filter_map ascii_lower (const_oracle (Fin (1 / 100))) boundary_record default_args = Inr ?out"
    unfolding combined_filter_map_def boundary_diagnostics by simp
  have s: "py_eq_num (normalized_stars boundary_record) (NInt (threshold_stars default_args))"
    by (simp add: py_eq_num_def normalized_stars_def boundary_record_def default_args_def)
  have n: "nl_ratio_of ascii_lower (const_oracle (Fin (1 / 100))) boundary_record = Inr (Fin (1 / 100))"
    by (simp add: eval_defs boundary_record_def)
  have m: "fl_eq (Fin (1 / 100)) (min_threshold_comments default_args)"
    by (simp add: default_args_def)
  have 1: "?out ''stars_rejected'' = Some (VInt 1) \<and> ?out ''accepted'' = Some (VInt 0)"
    using boundary_values_reject[OF ret, THEN conjunct1, THEN mp, OF s] .
  from boundary_values_reject[OF ret, THEN conjunct2] obtain r where
    r: "nl_ratio_of ascii_lower (const_oracle (Fin (1 / 100))) boundary_record = Inr r" and
    imp: "fl_eq r (min_threshold_comments default_args) \<or> fl_eq r (max_threshold_comments default_args) \<longrightarrow>
            ?out ''comments_rejected'' = Some (VInt 1) \<and> ?out ''accepted'' = Some (VInt 0)"
    by (elim exE conjE)
  from r n have "r = Fin (1 / 100)" by simp
  with imp m have 2: "?out ''comments_rejected'' = Some (VInt 1)" by simp
  from s n m 1 2 show ?thesis unfolding ret output_field_def by simp
qed

text \<open>
  C3 (amended). Whenever the evaluator returns, it attaches at most one of the three
  basic tags, and the one attached is the first match in the order max-line, avg-line,
  alphanum-fraction: \<open>basic_rejected_max_line\<close> exactly when the max-line condition
  holds, \<open>basic_rejected_avg_line\<close> exactly when the max-line condition fails and the
  avg-line condition holds, \<open>basic_rejected_alphanum\<close> exactly when the first two fail
  and the alphanum condition holds. For a record that carries no field named like a
  basic tag, the output holds exactly the attached tag, so at most one.
\<close>

theorem one_basic_tag_first_match:
  assumes "combined_filter_map lower orc ex args = Inr out"
  shows "\<exists>stats. diagnostics lower orc ex args = Inr stats \<and> out = ex ++ stats
    \<and> stats ''basic_rejected_max_line'' = (if max_line_cond ex args = Inr True then Some (VInt 1) else None)
    \<and> stats ''basic_rejected_avg_line'' =
        (if max_line_cond ex args = Inr False \<and> avg_line_cond ex args = Inr True then Some (VInt 1) else None)
    \<and> stats ''basic_rejected_alphanum'' =
        (if max_line_cond ex args = Inr False \<and> avg_line_cond ex args = Inr False
            \<and> alphanum_cond ex args = Inr True then Some (VInt 1) else None)
    \<and> length (filter (\<lambda>t. stats t \<noteq> None) basic_tags) \<le> 1
    \<and> ((\<forall>t\<in>set basic_tags. ex t = None) \<longrightarrow>
          (\<forall>t\<in>set basic_tags. out t = stats t)
          \<and> length (filter (\<lambda>t. out t \<noteq> None) basic_tags) \<le> 1)"
proof -
  from assms obtain stats where d: "diagnostics lower orc ex args = Inr stats"
    and out: "out = ex ++ stats" by (rule combined_Inr)
  from diagnostics_fields[OF d] have
    f1: "stats ''basic_rejected_max_line'' = (if max_line_cond ex args = Inr True then Some (VInt 1) else None)" and
    f2: "stats ''basic_rejected_avg_line'' =
        (if max_line_cond ex args = Inr False \<and> avg_line_cond ex args = Inr True then Some (VInt 1) else None)" and
    f3: "stats ''basic_rejected_alphanum'' =
        (if max_line_cond ex args = Inr False \<and> avg_line_cond ex args = Inr False
            \<and> alphanum_cond ex args = Inr True then Some (VInt 1) else None)"
    by blast+
  have one: "length (filter (\<lambda>t. stats t \<noteq> None) basic_tags) \<le> 1"
    by (simp add: basic_tags_def f1 f2 f3)
  have fresh: "(\<forall>t\<in>set basic_tags. ex t = None) \<longrightarrow>
          (\<forall>t\<in>set basic_tags. out t = stats t)
          \<and> length (filter (\<lambda>t. out t \<noteq> None) basic_tags) \<le> 1"
  proof
    assume e: "\<forall>t\<in>set basic_tags. ex t = None"
    have same: "\<forall>t\<in>set basic_tags. out t = stats t"
      using e unfolding out by (simp add: map_add_def split: option.splits)
    then have "filter (\<lambda>t. out t \<noteq> None) basic_tags = filter (\<lambda>t. stats t \<noteq> None) basic_tags"
      by (intro filter_cong) auto
    with one same show "(\<forall>t\<in>set basic_tags. out t = stats t)
          \<and> length (filter (\<lambda>t. out t \<noteq> None) basic_tags) \<le> 1" by simp
  qed
  show ?thesis
    apply (rule exI[of _ stats])
    apply (intro conjI)
    by (fact d out f1 f2 f3 one fresh)+
qed

lemma long_line_diagnostics:
  "diagnostics ascii_lower (const_oracle (Fin (1 / 2))) long_line_record default_args =
     Inr [''basic_rejected_max_line'' \<mapsto> VInt 1, ''stars'' \<mapsto> VInt 10,
          ''nl_ratio'' \<mapsto> VFloat (Fin (1 / 2)), ''accepted'' \<mapsto> VInt 0]"
  by (simp add: eval_defs long_line_record_def)

text \<open>C3 (amended) on a record that fails both the max-line and the avg-line condition: only the first tag is in the output.\<close>

theorem one_basic_tag_first_match_witness:
  "long_line_record ''basic_rejected_max_line'' = None
   \<and> long_line_record ''basic_rejected_avg_line'' = None
   \<and> long_line_record ''basic_rejected_alphanum'' = None
   \<and> max_line_cond long_line_record default_args = Inr True
   \<and> avg_line_cond long_line_record default_args = Inr True
   \<and> output_field ''basic_rejected_max_line''
        (combined_filter_map ascii_lower (const_oracle (Fin (1 / 2))) long_line_record default_args) = Some (VInt 1)
   \<and> output_field ''basic_rejected_avg_line''
        (combined_filter_map ascii_lower (const_oracle (Fin (1 / 2))) long_line_record default_args) = None
   \<and> output_field ''basic_rejected_alphanum''
        (combined_filter_map ascii_lower (const_oracle (Fin (1 / 2))) long_line_record default_args) = None"
proof -
  let ?out = "long_line_record ++ [''basic_rejected_max_line'' \<mapsto> VInt 1, ''stars'' \<mapsto> VInt 10,
          ''nl_ratio'' \<mapsto> VFloat (Fin (1 / 2)), ''accepted'' \<mapsto> VInt 0]"
  have ret: "combined_filter_map ascii_lower (const_oracle (Fin (1 / 2))) long_line_record default_args = Inr ?out"
    unfolding combined_filter_map_def long_line_diagnostics by simp
  have fresh: "\<forall>t\<in>set basic_tags. long_line_record t = None"
    by (simp add: basic_tags_def long_line_record_def good_record_def)
  have c1: "max_line_cond long_line_record default_args = Inr True"
    by (simp add: eval_defs long_line_record_def)
  have c2: "avg_line_cond long_line_record default_args = Inr True"
    by (simp add: eval_defs long_line_record_def)
  from one_basic_tag_first_match[OF ret] obtain stats where
    f1: "stats ''basic_rejected_max_line'' =
          (if max_line_cond long_line_record default_args = Inr True then Some (VInt 1) else None)" and
    f2: "stats ''basic_rejected_avg_line'' =
        (if max_line_cond long_line_record default_args = Inr False
            \<and> avg_line_cond long_line_record default_args = Inr True then Some (VInt 1) else None)" and
    f3: "stats ''basic_rejected_alphanum'' =
        (if max_line_cond long_line_record default_args = Inr False
            \<and> avg_line_cond long_line_record default_args = Inr False
            \<and> alphanum_cond long_line_record default_args = Inr True then Some (VInt 1) else None)" and
    imp: "(\<forall>t\<in>set basic_tags. long_line_record t = None) \<longrightarrow>
          (\<forall>t\<in>set basic_tags. ?out t = stats t)
          \<and> length (filter (\<lambda>t. ?out t \<noteq> None) basic_tags) \<le> 1"
    by blast
  from imp fresh have same: "\<forall>t\<in>set basic_tags. ?out t = stats t" by blast
  have "?out ''basic_rejected_max_line'' = Some (VInt 1)"
    and "?out ''basic_rejected_avg_line'' = None"
    and "?out ''basic_rejected_alphanum'' = None"
    using same f1 f2 f3 c1 by (simp_all add: basic_tags_def)
  with fresh c1 c2 show ?thesis
    unfolding ret output_field_def by (simp add: basic_tags_def)
qed

text \<open>
  C4. For a record whose \<open>max_stars_count\<close> is absent or \<open>None\<close>, whenever the
  evaluator returns: the normalized stars value is \<open>0\<close>, the stars gate compares
  \<open>0\<close> with the threshold (so it rejects exactly when \<open>0 <= threshold_stars\<close>), and
  the diagnostics and the output record \<open>stars = 0\<close>.
\<close>

theorem absent_stars_normalized:
  assumes "combined_filter_map lower orc ex args = Inr out"
    and "ex ''max_stars_count'' = None \<or> ex ''max_stars_count'' = Some VNone"
  shows "normalized_stars ex = VInt 0
    \<and> out ''stars'' = Some (VInt 0)
    \<and> stars_cond ex args = Inr (0 \<le> threshold_stars args)
    \<and> (0 \<le> threshold_stars args \<longrightarrow>
          out ''stars_rejected'' = Some (VInt 1) \<and> out ''accepted'' = Some (VInt 0))
    \<and> (\<exists>stats. diagnostics lower orc ex args = Inr stats \<and> stats ''stars'' = Some (VInt 0)
          \<and> stats ''stars_rejected'' = (if 0 \<le> threshold_stars args then Some (VInt 1) else None))"
proof -
  from assms(1) obtain stats where d: "diagnostics lower orc ex args = Inr stats"
    and out: "out = ex ++ stats" by (rule combined_Inr)
  from diagnostics_fields[OF d] obtain r where
    st: "stats ''stars'' = Some (normalized_stars ex)" and
    sr: "stats ''stars_rejected'' = (if stars_cond ex args = Inr True then Some (VInt 1) else None)" and
    ac: "stats ''accepted'' = Some (VInt (if all_pass ex args r then 1 else 0))"
    by blast
  from assms(2) have n: "normalized_stars ex = VInt 0"
    by (auto simp add: normalized_stars_def)
  have c: "stars_cond ex args = Inr (0 \<le> threshold_stars args)"
    by (simp add: stars_cond_def n py_le_def fl_le_def) linarith
  have o: "out ''stars'' = Some (VInt 0)" using st n by (simp add: out)
  have rej: "0 \<le> threshold_stars args \<longrightarrow>
          out ''stars_rejected'' = Some (VInt 1) \<and> out ''accepted'' = Some (VInt 0)"
  proof
    assume "0 \<le> threshold_stars args"
    with c have t: "stars_cond ex args = Inr True" by simp
    then have "\<not> all_pass ex args r" by (simp add: all_pass_def)
    with t sr ac show "out ''stars_rejected'' = Some (VInt 1) \<and> out ''accepted'' = Some (VInt 0)"
      by (simp add: out)
  qed
  have s2: "stats ''stars'' = Some (VInt 0)" using st n by simp
  have s3: "stats ''stars_rejected'' = (if 0 \<le> threshold_stars args then Some (VInt 1) else None)"
    using sr c by simp
  from n o c rej d s2 s3 show ?thesis by blast
qed

lemma null_stars_diagnostics:
  "diagnostics ascii_lower (const_oracle (Fin (1 / 2))) null_stars_record default_args =
     Inr [''stars'' \<mapsto> VInt 0, ''stars_rejected'' \<mapsto> VInt 1,
          ''nl_ratio'' \<mapsto> VFloat (Fin (1 / 2)), ''accepted'' \<mapsto> VInt 0]"
  by (simp add: eval_defs null_stars_record_def)

text \<open>C4 on a record with a null stars count under the default threshold.\<close>

theorem absent_stars_normalized_witness:
  "null_stars_record ''max_stars_count'' = Some VNone
   \<and> output_field ''stars''
        (combined_filter_map ascii_lower (const_oracle (Fin (1 / 2))) null_stars_record default_args) = Some (VInt 0)
   \<and> output_field ''stars_rejected''
        (combined_filter_map ascii_lower (const_oracle (Fin (1 / 2))) null_stars_record default_args) = Some (VInt 1)
   \<and> output_field ''accepted''
        (combined_filter_map ascii_lower (const_oracle (Fin (1 / 2))) null_stars_record default_args) = Some (VInt 0)"
proof -
  let ?out = "null_stars_record ++ [''stars'' \<mapsto> VInt 0, ''stars_rejected'' \<mapsto> VInt 1,
          ''nl_ratio'' \<mapsto> VFloat (Fin (1 / 2)), ''accepted'' \<mapsto> VInt 0]"
  have ret: "combined_filter_map ascii_lower (const_oracle (Fin (1 / 2))) null_stars_record default_args = Inr ?out"
    unfolding combined_filter_map_def null_stars_diagnostics by simp
  have null: "null_stars_record ''max_stars_count'' = Some VNone"
    by (simp add: null_stars_record_def)
  then have h: "null_stars_record ''max_stars_count'' = None \<or> null_stars_record ''max_stars_count'' = Some VNone"
    by simp
  have t: "0 \<le> threshold_stars default_args" by (simp add: default_args_def)
  from absent_stars_normalized[OF ret h] t
  have "?out ''stars'' = Some (VInt 0)"
    and "?out ''stars_rejected'' = Some (VInt 1) \<and> ?out ''accepted'' = Some (VInt 0)"
    by blast+
  with null show ?thesis unfolding ret output_field_def by simp
qed

lemma number_as_num:
  assumes "is_number (ex k)"
  obtains v n where "getitem ex k = Inr v" and "as_num v = Inr n"
proof (cases "ex k")
  case None
  with assms show ?thesis by (simp add: is_number_def)
next
  case (Some v)
  with assms that show ?thesis
    by (cases v) (simp_all add: is_number_def getitem_def)
qed

lemma basic_filters_returns:
  assumes "is_number (ex ''max_line_length'')" and "is_number (ex ''avg_line_length'')"
    and "is_number (ex ''alphanum_fraction'')"
  shows "\<exists>v. basic_filters ex args vs = Inr v"
proof -
  from assms(1) obtain c1 where c1: "max_line_cond ex args = Inr c1"
    by (elim number_as_num) (simp add: max_line_cond_def py_gt_def)
  from assms(2) obtain c2 where c2: "avg_line_cond ex args = Inr c2"
    by (elim number_as_num) (simp add: avg_line_cond_def py_gt_def)
  from assms(3) obtain c3 where c3: "alphanum_cond ex args = Inr c3"
    by (elim number_as_num) (simp add: alphanum_cond_def py_lt_def)
  show ?thesis
    by (cases c1; cases c2; cases c3) (auto simp add: basic_filters_def c1 c2 c3)
qed

lemma stars_filter_returns:
  assumes "ex ''max_stars_count'' = None \<or> ex ''max_stars_count'' = Some VNone
           \<or> is_number (ex ''max_stars_count'')"
  shows "\<exists>v. stars_filter ex args vs = Inr v"
proof -
  have "\<exists>n. as_num (normalized_stars ex) = Inr n"
  proof (cases "ex ''max_stars_count''")
    case None
    then show ?thesis by (simp add: normalized_stars_def)
  next
    case (Some v)
    with assms show ?thesis
      by (cases v) (simp_all add: normalized_stars_def is_number_def)
  qed
  then obtain c where "stars_cond ex args = Inr c"
    by (auto simp add: stars_cond_def py_le_def)
  then show ?thesis
    by (cases c) (auto simp add: stars_filter_def Let_def)
qed

lemma nl_ratio_of_returns:
  assumes "ex ''content'' \<noteq> None" and "case ex ''lang'' of Some (VStr s) \<Rightarrow> True | _ \<Rightarrow> False"
    and "\<forall>c l. \<exists>r. orc c l = Inr r"
  shows "\<exists>r. nl_ratio_of lower orc ex = Inr r"
proof -
  from assms(1) obtain c where c: "ex ''content'' = Some c" by blast
  from assms(2) obtain s where s: "ex ''lang'' = Some (VStr s)"
    by (auto split: option.splits pyval.splits)
  from assms(3) obtain r where "orc c (lower s) = Inr r" by blast
  with c s show ?thesis
    by (simp add: nl_ratio_of_def getitem_def str_lower_def)
qed

lemma comments_filter_returns:
  assumes "nl_ratio_of lower orc ex = Inr r"
  shows "\<exists>v. comments_filter lower orc ex args vs = Inr v"
  using assms by (auto simp add: comments_filter_def Let_def)

lemma evaluator_returns:
  assumes "well_formed_record ex" and "\<forall>c l. \<exists>r. orc c l = Inr r"
  shows "\<exists>out. combined_filter_map lower orc ex args = Inr out"
proof -
  from assms(1) obtain v1 where v1: "basic_filters ex args (True, Map.empty) = Inr v1"
    unfolding well_formed_record_def using basic_filters_returns by blast
  from assms(1) obtain v2 where v2: "stars_filter ex args v1 = Inr v2"
    unfolding well_formed_record_def using stars_filter_returns by blast
  from assms obtain r where "nl_ratio_of lower orc ex = Inr r"
    unfolding well_formed_record_def using nl_ratio_of_returns by blast
  then obtain v3 where v3: "comments_filter lower orc ex args v2 = Inr v3"
    using comments_filter_returns by blast
  show ?thesis
    by (simp add: combined_filter_map_def diagnostics_def v1 v2 v3)
qed

text \<open>
  C5. Whenever the evaluator returns, whatever the basic gate and the final decision
  were, the stars gate and the oracle have been evaluated and the output holds
  \<open>stars\<close> (the normalized count) and \<open>nl_ratio\<close> (the oracle's ratio), next to an
  \<open>accepted\<close> of \<open>1\<close> or \<open>0\<close>. And the evaluator does return on every well-formed
  record when the oracle does not raise.
\<close>

theorem stars_and_nl_ratio_always_present:
  "(combined_filter_map lower orc ex args = Inr out \<longrightarrow>
       out ''stars'' = Some (normalized_stars ex)
     \<and> (\<exists>r. nl_ratio_of lower orc ex = Inr r \<and> out ''nl_ratio'' = Some (VFloat r))
     \<and> (\<exists>c. stars_cond ex args = Inr c)
     \<and> (out ''accepted'' = Some (VInt 1) \<or> out ''accepted'' = Some (VInt 0)))
   \<and> (well_formed_record ex \<and> (\<forall>c l. \<exists>r. orc c l = Inr r) \<longrightarrow>
        (\<exists>out'. combined_filter_map lower orc ex args = Inr out'))"
proof (intro conjI impI)
  assume ret: "combined_filter_map lower orc ex args = Inr out"
  then obtain stats where d: "diagnostics lower orc ex args = Inr stats"
    and out: "out = ex ++ stats" by (rule combined_Inr)
  from diagnostics_fields[OF d] obtain r where
    r: "nl_ratio_of lower orc ex = Inr r" and
    st: "stats ''stars'' = Some (normalized_stars ex)" and
    nl: "stats ''nl_ratio'' = Some (VFloat r)" and
    ac: "stats ''accepted'' = Some (VInt (if all_pass ex args r then 1 else 0))"
    by blast
  show "out ''stars'' = Some (normalized_stars ex)" using st by (simp add: out)
  show "\<exists>r. nl_ratio_of lower orc ex = Inr r \<and> out ''nl_ratio'' = Some (VFloat r)"
    using r nl by (simp add: out)
  from diagnostics_Inr[OF d] obtain v1 v2 where "stars_filter ex args v1 = Inr v2" by blast
  from stars_filter_Inr[OF this] show "\<exists>c. stars_cond ex args = Inr c" by blast
  show "out ''accepted'' = Some (VInt 1) \<or> out ''accepted'' = Some (VInt 0)"
    using ac by (simp add: out)
next
  assume "well_formed_record ex \<and> (\<forall>c l. \<exists>r. orc c l = Inr r)"
  then show "\<exists>out'. combined_filter_map lower orc ex args = Inr out'"
    using evaluator_returns by blast
qed

text \<open>C5 on a record rejected by the basic gate: the evaluator returns on it and the output holds \<open>stars\<close> and \<open>nl_ratio\<close>.\<close>

theorem stars_and_nl_ratio_always_present_witness:
  "well_formed_record long_line_record
   \<and> output_field ''basic_rejected_max_line''
        (combined_filter_map ascii_lower (const_oracle (Fin (1 / 2))) long_line_record default_args) = Some (VInt 1)
   \<and> output_field ''accepted''
        (combined_filter_map ascii_lower (const_oracle (Fin (1 / 2))) long_line_record default_args) = Some (VInt 0)
   \<and> output_field ''stars''
        (combined_filter_map ascii_lower (const_oracle (Fin (1 / 2))) long_line_record default_args) = Some (VInt 10)
   \<and> output_field ''nl_ratio''
        (combined_filter_map ascii_lower (const_oracle (Fin (1 / 2))) long_line_record default_args)
       = Some (VFloat (Fin (1 / 2)))"
proof -
  let ?run = "combined_filter_map ascii_lower (const_oracle (Fin (1 / 2))) long_line_record default_args"
  have wf: "well_formed_record long_line_record"
    by (simp add: well_formed_record_def is_number_def long_line_record_def good_record_def)
  have total: "\<forall>c l. \<exists>r. const_oracle (Fin (1 / 2)) c l = Inr r"
    by (simp add: const_oracle_def)
  from stars_and_nl_ratio_always_present[THEN conjunct2, THEN mp, OF conjI, OF wf total]
  obtain out where ret: "?run = Inr out" by blast
  from stars_and_nl_ratio_always_present[THEN conjunct1, THEN mp, OF ret]
  obtain r where s: "out ''stars'' = Some (normalized_stars long_line_record)"
    and r: "nl_ratio_of ascii_lower (const_oracle (Fin (1 / 2))) long_line_record = Inr r"
    and n: "out ''nl_ratio'' = Some (VFloat r)"
    by (elim exE conjE)
  have "nl_ratio_of ascii_lower (const_oracle (Fin (1 / 2))) long_line_record = Inr (Fin (1 / 2))"
    by (simp add: eval_defs long_line_record_def)
  with r have r2: "r = Fin (1 / 2)" by simp
  have ns: "normalized_stars long_line_record = VInt 10"
    by (simp add: normalized_stars_def long_line_record_def good_record_def)
  have ev: "?run = Inr (long_line_record ++ [''basic_rejected_max_line'' \<mapsto> VInt 1, ''stars'' \<mapsto> VInt 10,
          ''nl_ratio'' \<mapsto> VFloat (Fin (1 / 2)), ''accepted'' \<mapsto> VInt 0])"
    unfolding combined_filter_map_def long_line_diagnostics by simp
  have tag: "output_field ''basic_rejected_max_line'' ?run = Some (VInt 1)"
    and acc: "output_field ''accepted'' ?run = Some (VInt 0)"
    unfolding ev output_field_def by simp_all
  from wf tag acc s n show ?thesis
    unfolding ret output_field_def r2 ns by simp
qed

section \<open>Properties of binary64 rounding\<close>

lemma pow2_powi: "pow2 e = 2 powi e"
  by (simp add: pow2_def power_int_def power_one_over [symmetric] inverse_eq_divide)

lemma pow2_pos: "0 < pow2 e"
  by (simp add: pow2_powi)

lemma pow2_mono: "a \<le> b \<Longrightarrow> pow2 a \<le> pow2 b"
  by (simp add: pow2_powi power_int_increasing)

lemma pow2_less_cancel: "pow2 a < pow2 b \<Longrightarrow> a < b"
  using pow2_mono [of b a] by (cases "a < b") simp_all

lemma pow2_add: "pow2 (a + b) = pow2 a * pow2 b"
  by (simp add: pow2_powi power_int_add)

lemma pow2_nat: "0 \<le> e \<Longrightarrow> pow2 e = 2 ^ nat e"
  by (simp add: pow2_def)

lemma bit_length_pos: "0 < n \<Longrightarrow> bit_length n = 1 + bit_length (n div 2)"
  by (subst bit_length.simps) simp

lemma bit_length_nonpos: "n \<le> 0 \<Longrightarrow> bit_length n = 0"
  by (subst bit_length.simps) simp

lemma bit_length_bounds:
  "0 < n \<Longrightarrow> 1 \<le> bit_length n \<and> 2 ^ nat (bit_length n - 1) \<le> n \<and> n < 2 ^ nat (bit_length n)"
proof (induction n rule: bit_length.induct)
  case (1 n)
  show ?case
  proof (cases "n div 2 = 0")
    case True
    with "1.prems" have n1: "n = 1" by presburger
    have "bit_length 1 = 1"
      by (simp add: bit_length_pos bit_length_nonpos)
    with n1 show ?thesis by simp
  next
    case False
    with "1.prems" have h: "0 < n div 2" by presburger
    from "1.prems" have "\<not> n \<le> 0" by simp
    from "1.IH"[OF this h] have b1: "1 \<le> bit_length (n div 2)"
      and lo: "2 ^ nat (bit_length (n div 2) - 1) \<le> n div 2"
      and hi: "n div 2 < 2 ^ nat (bit_length (n div 2))" by simp_all
    define b where "b = bit_length (n div 2)"
    have bn: "bit_length n = 1 + b"
      using "1.prems" by (simp add: bit_length_pos b_def)
    from b1 have nb: "nat b = Suc (nat (b - 1))" by (simp add: b_def)
    have lo': "(2::int) ^ nat b \<le> n"
    proof -
      have "(2::int) ^ nat b = 2 * 2 ^ nat (b - 1)" by (simp add: nb)
      also have "\<dots> \<le> 2 * (n div 2)" using lo by (simp add: b_def)
      also have "\<dots> \<le> n" by presburger
      finally show ?thesis .
    qed
    have hi': "n < 2 ^ nat (1 + b)"
    proof -
      have "n < 2 * (n div 2) + 2" by presburger
      also have "\<dots> \<le> 2 * 2 ^ nat b" using hi by (simp add: b_def)
      also have "\<dots> = 2 ^ nat (1 + b)" using b1 by (simp add: b_def nat_add_distrib)
      finally show ?thesis .
    qed
    from b1 lo' hi' show ?thesis by (simp add: bn b_def)
  qed
qed

lemma bit_length_upper: "0 \<le> n \<Longrightarrow> n < 2 ^ nat (bit_length n)"
  using bit_length_bounds [of n] by (cases "n = 0") (simp_all add: bit_length_nonpos)

lemma bit_length_nonneg: "0 \<le> bit_length n"
  using bit_length_bounds [of n] by (cases "0 < n") (simp_all add: bit_length_nonpos)

lemma ilog2_bounds:
  assumes "0 < x"
  shows "pow2 (ilog2 x) \<le> x \<and> x < pow2 (ilog2 x + 1)"
proof (cases "1 \<le> x")
  case True
  define n where "n = \<lfloor>x\<rfloor>"
  from True have n: "0 < n" by (simp add: n_def)
  note b = bit_length_bounds[OF n]
  have k: "ilog2 x = bit_length n - 1" using True by (simp add: ilog2_def n_def)
  have "pow2 (bit_length n - 1) = of_int (2 ^ nat (bit_length n - 1))"
    using b by (simp add: pow2_nat)
  also have "\<dots> \<le> of_int n" using b by (simp only: of_int_le_iff)
  also have "\<dots> \<le> x" by (simp add: n_def)
  finally have lo: "pow2 (ilog2 x) \<le> x" by (simp add: k)
  have "n + 1 \<le> 2 ^ nat (bit_length n)" using b by simp
  then have "(of_int (n + 1) :: rat) \<le> of_int (2 ^ nat (bit_length n))"
    by (simp only: of_int_le_iff)
  moreover have "x < of_int (n + 1)" using floor_correct[of x] by (simp add: n_def)
  ultimately have "x < of_int (2 ^ nat (bit_length n))" by simp
  also have "\<dots> = pow2 (bit_length n)" using bit_length_nonneg[of n] by (simp add: pow2_nat)
  finally have "x < pow2 (ilog2 x + 1)" by (simp add: k)
  with lo show ?thesis ..
next
  case False
  define c where "c = \<lceil>1 / x\<rceil>"
  define m where "m = c - 1"
  define b where "b = bit_length m"
  from False assms have big: "1 < 1 / x" by (simp add: field_simps)
  then have c2: "2 \<le> c" unfolding c_def by (simp add: le_ceiling_iff) 
  then have m1: "0 < m" by (simp add: m_def)
  note bb = bit_length_bounds[OF m1]
  have k: "ilog2 x = - b" using False by (simp add: ilog2_def b_def m_def c_def)
  have b1: "1 \<le> b" using bb by (simp add: b_def)
  have "1 / x \<le> of_int c" by (simp add: c_def)
  also have "(of_int c :: rat) \<le> of_int (2 ^ nat b)"
    using bb by (simp only: of_int_le_iff) (simp add: m_def b_def)
  finally have up: "1 / x \<le> 2 ^ nat b" by simp
  have lo: "pow2 (- b) \<le> x"
  proof -
    have "pow2 (- b) = 1 / 2 ^ nat b" using b1 by (simp add: pow2_def)
    also have "\<dots> \<le> x" using up assms by (simp add: field_simps)
    finally show ?thesis .
  qed
  have "(of_int (2 ^ nat (b - 1)) :: rat) \<le> of_int m"
    using bb by (simp only: of_int_le_iff) (simp add: b_def)
  also have "(of_int m :: rat) < 1 / x" unfolding m_def c_def by (simp add: ceiling_correct)
  finally have dn: "2 ^ nat (b - 1) < 1 / x" by simp
  have hi: "x < pow2 (- b + 1)"
  proof (cases "b = 1")
    case True
    with False show ?thesis by (simp add: pow2_def)
  next
    case False
    with b1 have "pow2 (- b + 1) = 1 / 2 ^ nat (b - 1)" by (simp add: pow2_def)
    also have "x < 1 / 2 ^ nat (b - 1)" using dn assms by (simp add: field_simps)
    finally show ?thesis by simp
  qed
  from lo hi show ?thesis by (simp add: k)
qed

lemma ilog2_unique:
  assumes "0 < x" and "pow2 k \<le> x" and "x < pow2 (k + 1)"
  shows "ilog2 x = k"
proof -
  from ilog2_bounds[OF assms(1)] have lo: "pow2 (ilog2 x) \<le> x" and hi: "x < pow2 (ilog2 x + 1)"
    by simp_all
  from lo assms(3) have "pow2 (ilog2 x) < pow2 (k + 1)" by simp
  then have "ilog2 x < k + 1" by (rule pow2_less_cancel)
  moreover from assms(2) hi have "pow2 k < pow2 (ilog2 x + 1)" by simp
  then have "k < ilog2 x + 1" by (rule pow2_less_cancel)
  ultimately show ?thesis by simp
qed


lemma round_half_even_cases:
  "(round_half_even q = \<lfloor>q\<rfloor> \<and> q - of_int \<lfloor>q\<rfloor> \<le> 1 / 2)
   \<or> (round_half_even q = \<lfloor>q\<rfloor> + 1 \<and> 1 / 2 \<le> q - of_int \<lfloor>q\<rfloor>)"
  by (simp add: round_half_even_def Let_def)

lemma round_half_even_bounds:
  "of_int (round_half_even q) \<le> q + 1 / 2 \<and> q - 1 / 2 \<le> of_int (round_half_even q)
   \<and> \<lfloor>q\<rfloor> \<le> round_half_even q"
proof -
  have f: "of_int \<lfloor>q\<rfloor> \<le> q" "q < of_int \<lfloor>q\<rfloor> + 1"
    using floor_correct[of q] by simp_all
  from round_half_even_cases[of q] show ?thesis
  proof
    assume a: "round_half_even q = \<lfloor>q\<rfloor> \<and> q - of_int \<lfloor>q\<rfloor> \<le> 1 / 2"
    then have e: "round_half_even q = \<lfloor>q\<rfloor>" by simp
    show ?thesis unfolding e using a f by (intro conjI; linarith)
  next
    assume a: "round_half_even q = \<lfloor>q\<rfloor> + 1 \<and> 1 / 2 \<le> q - of_int \<lfloor>q\<rfloor>"
    then have e: "round_half_even q = \<lfloor>q\<rfloor> + 1" by simp
    show ?thesis unfolding e of_int_add of_int_1 using a f by (intro conjI; linarith)
  qed
qed

lemma round_half_even_certificate:
  assumes "of_int m - 1 / 2 < q" and "q < of_int m + 1 / 2"
  shows "round_half_even q = m"
proof -
  have f: "of_int \<lfloor>q\<rfloor> \<le> q" "q < of_int \<lfloor>q\<rfloor> + 1"
    using floor_correct[of q] by simp_all
  from assms f have "of_int m - 1 < (of_int \<lfloor>q\<rfloor> + 1 :: rat)" "(of_int \<lfloor>q\<rfloor> :: rat) < of_int m + 1"
    by linarith+
  then have "m - 1 < \<lfloor>q\<rfloor> + 1" "\<lfloor>q\<rfloor> < m + 1"
    by (simp_all only: of_int_less_iff [where 'a = rat, symmetric] of_int_add of_int_diff of_int_1)
  then consider "\<lfloor>q\<rfloor> = m" | "\<lfloor>q\<rfloor> = m - 1" by linarith
  then show ?thesis
  proof cases
    case 1
    with assms show ?thesis by (simp add: round_half_even_def Let_def)
  next
    case 2
    with assms show ?thesis by (simp add: round_half_even_def Let_def)
  qed
qed

lemma round_half_even_exact: "round_half_even (of_int m) = m"
  by (rule round_half_even_certificate) simp_all

text \<open>The value of \<open>round_binary64\<close> from the binade of its argument.\<close>

lemma round_binary64_certificate:
  assumes "0 < x" and "pow2 k \<le> x" and "x < pow2 (k + 1)"
    and "e = max (k - 52) (- 1074)"
    and "round_half_even (x / pow2 e) = m"
    and "of_int m * pow2 e < pow2 1024"
  shows "round_binary64 x = Fin (of_int m * pow2 e)"
proof -
  have "ilog2 x = k" using assms(1-3) by (rule ilog2_unique)
  with assms show ?thesis
    by (simp add: round_binary64_def Let_def)
qed

lemma round_binary64_neg: "round_binary64 (- x) = fl_neg (round_binary64 x)"
  by (simp add: round_binary64_def Let_def)

lemma round_4: "round_binary64 (4) = Fin (4)"
proof -
  have "round_binary64 (4) = Fin (of_int 4503599627370496 * pow2 (- 50))"
  proof (rule round_binary64_certificate[where k = "2"])
    show "round_half_even (4 / pow2 (- 50)) = 4503599627370496"
      by (rule round_half_even_certificate) (simp_all add: pow2_def)
  qed (simp_all add: pow2_def)
  then show ?thesis by (simp add: pow2_def)
qed

lemma round_3: "round_binary64 (3) = Fin (3)"
proof -
  have "round_binary64 (3) = Fin (of_int 6755399441055744 * pow2 (- 51))"
  proof (rule round_binary64_certificate[where k = "1"])
    show "round_half_even (3 / pow2 (- 51)) = 6755399441055744"
      by (rule round_half_even_certificate) (simp_all add: pow2_def)
  qed (simp_all add: pow2_def)
  then show ?thesis by (simp add: pow2_def)
qed

lemma round_100: "round_binary64 (100) = Fin (100)"
proof -
  have "round_binary64 (100) = Fin (of_int 7036874417766400 * pow2 (- 46))"
  proof (rule round_binary64_certificate[where k = "6"])
    show "round_half_even (100 / pow2 (- 46)) = 7036874417766400"
      by (rule round_half_even_certificate) (simp_all add: pow2_def)
  qed (simp_all add: pow2_def)
  then show ?thesis by (simp add: pow2_def)
qed

lemma round_50: "round_binary64 (50) = Fin (50)"
proof -
  have "round_binary64 (50) = Fin (of_int 7036874417766400 * pow2 (- 47))"
  proof (rule round_binary64_certificate[where k = "5"])
    show "round_half_even (50 / pow2 (- 47)) = 7036874417766400"
      by (rule round_half_even_certificate) (simp_all add: pow2_def)
  qed (simp_all add: pow2_def)
  then show ?thesis by (simp add: pow2_def)
qed

lemma round_25: "round_binary64 (25) = Fin (25)"
proof -
  have "round_binary64 (25) = Fin (of_int 7036874417766400 * pow2 (- 48))"
  proof (rule round_binary64_certificate[where k = "4"])
    show "round_half_even (25 / pow2 (- 48)) = 7036874417766400"
      by (rule round_half_even_certificate) (simp_all add: pow2_def)
  qed (simp_all add: pow2_def)
  then show ?thesis by (simp add: pow2_def)
qed

lemma round_4_gb: "round_binary64 (1 / 250000000) = Fin (4835703278458517 / 1208925819614629174706176)"
proof -
  have "round_binary64 (1 / 250000000) = Fin (of_int 4835703278458517 * pow2 (- 80))"
  proof (rule round_binary64_certificate[where k = "- 28"])
    show "round_half_even (1 / 250000000 / pow2 (- 80)) = 4835703278458517"
      by (rule round_half_even_certificate) (simp_all add: pow2_def)
  qed (simp_all add: pow2_def)
  then show ?thesis by (simp add: pow2_def)
qed

lemma round_3_gb: "round_binary64 (3 / 1000000000) = Fin (7253554917687775 / 2417851639229258349412352)"
proof -
  have "round_binary64 (3 / 1000000000) = Fin (of_int 7253554917687775 * pow2 (- 81))"
  proof (rule round_binary64_certificate[where k = "- 29"])
    show "round_half_even (3 / 1000000000 / pow2 (- 81)) = 7253554917687775"
      by (rule round_half_even_certificate) (simp_all add: pow2_def)
  qed (simp_all add: pow2_def)
  then show ?thesis by (simp add: pow2_def)
qed

lemma round_gb_diff: "round_binary64 (2417851639229259 / 2417851639229258349412352) = Fin (2417851639229259 / 2417851639229258349412352)"
proof -
  have "round_binary64 (2417851639229259 / 2417851639229258349412352) = Fin (of_int 4835703278458518 * pow2 (- 82))"
  proof (rule round_binary64_certificate[where k = "- 30"])
    show "round_half_even (2417851639229259 / 2417851639229258349412352 / pow2 (- 82)) = 4835703278458518"
      by (rule round_half_even_certificate) (simp_all add: pow2_def)
  qed (simp_all add: pow2_def)
  then show ?thesis by (simp add: pow2_def)
qed

lemma round_gb_diff_100: "round_binary64 (60446290980731475 / 604462909807314587353088) = Fin (3777893186295717 / 37778931862957161709568)"
proof -
  have "round_binary64 (60446290980731475 / 604462909807314587353088) = Fin (of_int 7555786372591434 * pow2 (- 76))"
  proof (rule round_binary64_certificate[where k = "- 24"])
    show "round_half_even (60446290980731475 / 604462909807314587353088 / pow2 (- 76)) = 7555786372591434"
      by (rule round_half_even_certificate) (simp_all add: pow2_def)
  qed (simp_all add: pow2_def)
  then show ?thesis by (simp add: pow2_def)
qed

lemma round_gb_pct: "round_binary64 (120892581961462944 / 4835703278458517) = Fin (7036874417766401 / 281474976710656)"
proof -
  have "round_binary64 (120892581961462944 / 4835703278458517) = Fin (of_int 7036874417766401 * pow2 (- 48))"
  proof (rule round_binary64_certificate[where k = "4"])
    show "round_half_even (120892581961462944 / 4835703278458517 / pow2 (- 48)) = 7036874417766401"
      by (rule round_half_even_certificate) (simp_all add: pow2_def)
  qed (simp_all add: pow2_def)
  then show ?thesis by (simp add: pow2_def)
qed



lemma round_binary64_zero: "round_binary64 0 = Fin 0"
  by (simp add: round_binary64_def)

lemma round_binary64_pos:
  "0 < x \<Longrightarrow> round_binary64 x =
     (let e = max (ilog2 x - 52) (- 1074);
          y = of_int (round_half_even (x / pow2 e)) * pow2 e
      in if pow2 1024 \<le> y then PInf else Fin y)"
  by (simp add: round_binary64_def Let_def)

lemma pow2_1024: "pow2 1024 = pow2 1023 + pow2 1023"
  using pow2_add[of 1023 1] by (simp add: pow2_def)

lemma rounded_below_overflow:
  assumes "0 < x" and "x < pow2 1023" and "e = max (ilog2 x - 52) (- 1074)"
  shows "of_int (round_half_even (x / pow2 e)) * pow2 e < pow2 1024"
proof -
  from ilog2_bounds[OF assms(1)] assms(2) have "pow2 (ilog2 x) < pow2 1023" by simp
  then have "ilog2 x < 1023" by (rule pow2_less_cancel)
  then have "e \<le> 1023" by (simp add: assms(3))
  then have pe: "pow2 e \<le> pow2 1023" by (rule pow2_mono)
  have p: "0 < pow2 e" by (rule pow2_pos)
  from round_half_even_bounds[of "x / pow2 e"]
  have "of_int (round_half_even (x / pow2 e)) \<le> x / pow2 e + 1 / 2" by simp
  then have "of_int (round_half_even (x / pow2 e)) * pow2 e \<le> (x / pow2 e + 1 / 2) * pow2 e"
    using p by (simp only: mult_le_cancel_right_pos)
  also have "\<dots> = x + pow2 e / 2" using p by (simp add: field_simps)
  also have "\<dots> < pow2 1023 + pow2 1023" using assms(2) pe p by linarith
  finally show ?thesis by (simp only: pow2_1024)
qed

lemma rounded_above_spacing:
  assumes "pow2 (- 1074) \<le> x" and "e = max (ilog2 x - 52) (- 1074)"
  shows "pow2 e \<le> of_int (round_half_even (x / pow2 e)) * pow2 e"
proof -
  have x0: "0 < x" using assms(1) pow2_pos[of "- 1074"] by linarith
  have p: "0 < pow2 e" by (rule pow2_pos)
  from ilog2_bounds[OF x0] have lo: "pow2 (ilog2 x) \<le> x" by simp
  have "pow2 (ilog2 x - 52) \<le> pow2 (ilog2 x)" by (rule pow2_mono) simp
  with lo have "pow2 (ilog2 x - 52) \<le> x" by simp
  with assms have "pow2 e \<le> x" by (simp add: max_def)
  then have "1 \<le> x / pow2 e" using p by (simp add: field_simps)
  then have "1 \<le> \<lfloor>x / pow2 e\<rfloor>" by (simp add: le_floor_iff)
  with round_half_even_bounds[of "x / pow2 e"] have "1 \<le> round_half_even (x / pow2 e)" by linarith
  then have "(1::rat) \<le> of_int (round_half_even (x / pow2 e))" by simp
  then have "1 * pow2 e \<le> of_int (round_half_even (x / pow2 e)) * pow2 e"
    using p by (simp only: mult_le_cancel_right_pos)
  then show ?thesis by simp
qed

lemma rounded_ge_one:
  assumes "1 \<le> x" and "e = max (ilog2 x - 52) (- 1074)"
  shows "1 \<le> of_int (round_half_even (x / pow2 e)) * pow2 e"
proof -
  have x0: "0 < x" using assms(1) by simp
  have p: "0 < pow2 e" by (rule pow2_pos)
  from ilog2_bounds[OF x0] have lo: "pow2 (ilog2 x) \<le> x" and hi: "x < pow2 (ilog2 x + 1)"
    by simp_all
  from hi assms(1) have "pow2 0 < pow2 (ilog2 x + 1)" by (simp add: pow2_def)
  then have k0: "0 \<le> ilog2 x" using pow2_less_cancel[of 0 "ilog2 x + 1"] by simp
  then have e: "e = ilog2 x - 52" by (simp add: assms(2))
  have split: "pow2 (ilog2 x) = pow2 52 * pow2 e"
    using pow2_add[of 52 e] by (simp add: e)
  with lo have "pow2 52 * pow2 e \<le> x" by simp
  then have "pow2 52 \<le> x / pow2 e" using p by (simp add: field_simps)
  moreover have "pow2 52 = of_int (2 ^ 52)" by (simp add: pow2_def)
  ultimately have "(of_int (2 ^ 52) :: rat) \<le> x / pow2 e" by simp
  then have "2 ^ 52 \<le> \<lfloor>x / pow2 e\<rfloor>" by (simp only: le_floor_iff)
  with round_half_even_bounds[of "x / pow2 e"] have "2 ^ 52 \<le> round_half_even (x / pow2 e)"
    by linarith
  then have "(of_int (2 ^ 52) :: rat) \<le> of_int (round_half_even (x / pow2 e))"
    by (simp only: of_int_le_iff)
  then have "pow2 52 \<le> of_int (round_half_even (x / pow2 e))" by (simp add: pow2_def)
  then have "pow2 52 * pow2 e \<le> of_int (round_half_even (x / pow2 e)) * pow2 e"
    using p by (simp only: mult_le_cancel_right_pos)
  moreover have "1 \<le> pow2 (ilog2 x)" using pow2_mono[OF k0] by (simp add: pow2_def)
  ultimately show ?thesis using split by simp
qed

lemma round_binary64_finite:
  assumes "\<bar>x\<bar> < pow2 1023"
  shows "\<exists>y. round_binary64 x = Fin y"
proof -
  have pos: "\<exists>y. round_binary64 z = Fin y" if "0 < z" "z < pow2 1023" for z
    using rounded_below_overflow[OF that refl] that(1)
    by (simp add: round_binary64_pos Let_def)
  consider "x = 0" | "0 < x" | "x < 0" by linarith
  then show ?thesis
  proof cases
    case 1
    then show ?thesis by (simp add: round_binary64_zero)
  next
    case 2
    with assms pos[of x] show ?thesis by simp
  next
    case 3
    with assms pos[of "- x"] obtain y where "round_binary64 (- x) = Fin y" by auto
    then have "round_binary64 (- (- x)) = fl_neg (Fin y)" by (simp only: round_binary64_neg)
    then show ?thesis by simp
  qed
qed

lemma round_binary64_nonzero:
  assumes "pow2 (- 1074) \<le> \<bar>x\<bar>"
  shows "round_binary64 x \<noteq> Fin 0"
proof -
  have pos: "round_binary64 z \<noteq> Fin 0" if "pow2 (- 1074) \<le> z" for z
  proof -
    have z0: "0 < z" using that pow2_pos[of "- 1074"] by linarith
    from rounded_above_spacing[OF that refl] pow2_pos[of "max (ilog2 z - 52) (- 1074)"]
    show ?thesis using z0 by (auto simp add: round_binary64_pos Let_def)
  qed
  have x0: "x \<noteq> 0" using assms pow2_pos[of "- 1074"] by auto
  then consider "0 < x" | "x < 0" by linarith
  then show ?thesis
  proof cases
    case 1
    with assms pos[of x] show ?thesis by simp
  next
    case 2
    with assms pos[of "- x"] have n: "round_binary64 (- x) \<noteq> Fin 0" by simp
    have "round_binary64 x = fl_neg (round_binary64 (- x))"
      using round_binary64_neg[of "- x"] by simp
    with n show ?thesis by (cases "round_binary64 (- x)") auto
  qed
qed

lemma round_binary64_ge_one:
  assumes "1 \<le> x" and "x < pow2 1023"
  shows "\<exists>y. round_binary64 x = Fin y \<and> 1 \<le> y \<and> y < pow2 1024"
proof -
  have x0: "0 < x" using assms(1) by simp
  from rounded_below_overflow[OF x0 assms(2) refl] rounded_ge_one[OF assms(1) refl] x0
  show ?thesis by (simp add: round_binary64_pos Let_def)
qed

section \<open>Properties of the corpus operations\<close>

lemma update_rows_Inr:
  "update_rows f rs = Inr us \<Longrightarrow> list_all2 (\<lambda>r r'. \<exists>u. f r = Inr u \<and> r' = r ++ u) rs us"
proof (induction rs arbitrary: us)
  case Nil
  then show ?case by simp
next
  case (Cons r rs)
  from Cons.prems obtain u where u: "f r = Inr u"
    and rest: "and_then (update_rows f rs) (\<lambda>us'. Inr ((r ++ u) # us')) = Inr us"
    by (auto elim: and_then_Inr_E)
  from rest obtain us' where us': "update_rows f rs = Inr us'" and us: "us = (r ++ u) # us'"
    by (auto elim: and_then_Inr_E)
  from Cons.IH[OF us'] u us show ?case by auto
qed

lemma update_rows_Inl:
  "r \<in> set rs \<Longrightarrow> f r = Inl e \<Longrightarrow> \<exists>e'. update_rows f rs = Inl e'"
proof (induction rs)
  case Nil
  then show ?case by simp
next
  case (Cons a rs)
  show ?case
  proof (cases "f a")
    case (Inl e')
    then show ?thesis by simp
  next
    case (Inr u)
    show ?thesis
    proof (cases "update_rows f rs")
      case (Inl e')
      with Inr show ?thesis by simp
    next
      case us: (Inr us)
      with Cons Inr have "r = a" by auto
      with Cons.prems Inr show ?thesis by simp
    qed
  qed
qed

lemma update_rows_returns:
  "\<forall>r\<in>set rs. \<exists>u. f r = Inr u \<Longrightarrow> \<exists>us. update_rows f rs = Inr us"
proof (induction rs)
  case Nil
  then show ?case by simp
next
  case (Cons a rs)
  then obtain u us where "f a = Inr u" and "update_rows f rs = Inr us" by auto
  then show ?case by simp
qed

lemma write_rows_Inr:
  assumes "write_rows cols added ks ds = Inr ws"
  shows "ws = map (stored_row cols added ks) ds" and "\<forall>d\<in>set ds. \<forall>k\<in>set added. d k \<noteq> None"
proof -
  from assms have e: "filter (\<lambda>k. list_ex (\<lambda>d. d k = None) ds) added = []"
    and w: "ws = map (stored_row cols added ks) ds"
    by (auto simp add: write_rows_def split: list.splits)
  from w show "ws = map (stored_row cols added ks) ds" .
  from e show "\<forall>d\<in>set ds. \<forall>k\<in>set added. d k \<noteq> None"
    by (auto simp add: filter_empty_conv list_ex_iff)
qed

lemma write_rows_returns:
  assumes "\<forall>d\<in>set ds. \<forall>k\<in>set added. d k \<noteq> None"
  shows "write_rows cols added ks ds = Inr (map (stored_row cols added ks) ds)"
proof -
  from assms have "filter (\<lambda>k. list_ex (\<lambda>d. d k = None) ds) added = []"
    by (auto simp add: filter_empty_conv list_ex_iff)
  then show ?thesis by (simp add: write_rows_def)
qed

lemma write_rows_KeyError:
  assumes "write_rows cols added ks ds = Inl e"
  shows "\<exists>k\<in>set added. e = KeyError k \<and> (\<exists>d\<in>set ds. d k = None)"
proof -
  from assms obtain k rest where f: "filter (\<lambda>k. list_ex (\<lambda>d. d k = None) ds) added = k # rest"
    and e: "e = KeyError k"
    by (auto simp add: write_rows_def split: list.splits)
  from f have "k \<in> set (filter (\<lambda>k. list_ex (\<lambda>d. d k = None) ds) added)" by simp
  with e show ?thesis by (auto simp add: list_ex_iff)
qed

text \<open>
  What a map that returns has done: the rows were updated and stored under the old
  columns and the added ones; a key that \<open>f\<close> cannot return, and a key that every
  updated row holds, is stored as it is.
\<close>

lemma dataset_map_Inr:
  assumes "dataset_map f ks ds = Inr mapped"
  obtains ups added where "update_rows f (rows ds) = Inr ups"
    and "rows mapped = map (stored_row (column_names ds) added ks) ups"
    and "column_names mapped = column_names ds @ added"
    and "\<forall>d\<in>set ups. \<forall>k. k \<notin> set ks \<or> (\<forall>d'\<in>set ups. d' k \<noteq> None) \<longrightarrow>
            stored_row (column_names ds) added ks d k = d k"
    and "added = (case ups of [] \<Rightarrow> [] | first # rest \<Rightarrow> new_columns (column_names ds) ks first)"
proof -
  from assms obtain ups where u: "update_rows f (rows ds) = Inr ups"
    and rest: "(case ups of
         [] \<Rightarrow> Inr ds
       | first # rest \<Rightarrow>
           (let added = new_columns (column_names ds) ks first
            in and_then (write_rows (column_names ds) added ks ups) (\<lambda>ws.
                 Inr (ds\<lparr>column_names := column_names ds @ added, rows := ws\<rparr>)))) = Inr mapped"
    unfolding dataset_map_def by (rule and_then_Inr_E)
  from update_rows_Inr[OF u] have len: "length ups = length (rows ds)"
    by (simp add: list_all2_lengthD)
  show ?thesis
  proof (cases ups)
    case Nil
    with rest len have "mapped = ds" and "rows ds = []" by simp_all
    with Nil u show ?thesis by (intro that[of ups "[]"]) simp_all
  next
    case (Cons first others)
    define added where "added = new_columns (column_names ds) ks first"
    from rest Cons obtain ws where w: "write_rows (column_names ds) added ks ups = Inr ws"
      and m: "mapped = ds\<lparr>column_names := column_names ds @ added, rows := ws\<rparr>"
      by (auto simp add: Let_def added_def elim!: and_then_Inr_E)
    from write_rows_Inr(1)[OF w] m
    have r: "rows mapped = map (stored_row (column_names ds) added ks) ups" by simp
    from m have c: "column_names mapped = column_names ds @ added" by simp
    have k: "\<forall>d\<in>set ups. \<forall>k. k \<notin> set ks \<or> (\<forall>d'\<in>set ups. d' k \<noteq> None) \<longrightarrow>
            stored_row (column_names ds) added ks d k = d k"
    proof (intro ballI allI impI)
      fix d k
      assume "d \<in> set ups" and a: "k \<notin> set ks \<or> (\<forall>d'\<in>set ups. d' k \<noteq> None)"
      show "stored_row (column_names ds) added ks d k = d k"
      proof (cases "k \<in> set ks \<and> k \<notin> set (column_names ds)")
        case False
        then show ?thesis by (auto simp add: stored_row_def)
      next
        case True
        with a have "\<forall>d'\<in>set ups. d' k \<noteq> None" by blast
        with Cons have "first k \<noteq> None" by simp
        with True have "k \<in> set added" by (simp add: added_def new_columns_def)
        then show ?thesis by (simp add: stored_row_def)
      qed
    qed
    from Cons have a: "added = (case ups of [] \<Rightarrow> [] | first # rest \<Rightarrow> new_columns (column_names ds) ks first)"
      by (simp add: added_def)
    from u r c k a show ?thesis by (rule that)
  qed
qed

lemma dataset_map_empty: "rows ds = [] \<Longrightarrow> dataset_map f ks ds = Inr ds"
  by (simp add: dataset_map_def)

lemma dataset_map_returns:
  assumes "update_rows f (rows ds) = Inr ups"
    and "\<forall>d\<in>set ups. \<forall>d'\<in>set ups. \<forall>k\<in>set ks. d k \<noteq> None \<longrightarrow> d' k \<noteq> None"
  shows "\<exists>mapped. dataset_map f ks ds = Inr mapped"
proof (cases ups)
  case Nil
  with assms(1) show ?thesis by (simp add: dataset_map_def)
next
  case (Cons first others)
  have "\<forall>d\<in>set ups. \<forall>k\<in>set (new_columns (column_names ds) ks first). d k \<noteq> None"
  proof (intro ballI)
    fix d k
    assume d: "d \<in> set ups" and "k \<in> set (new_columns (column_names ds) ks first)"
    then have "k \<in> set ks" and "first k \<noteq> None" by (simp_all add: new_columns_def)
    moreover from Cons have "first \<in> set ups" by simp
    ultimately show "d k \<noteq> None" using assms(2) d by blast
  qed
  from write_rows_returns[OF this] assms(1) Cons show ?thesis
    by (simp add: dataset_map_def Let_def)
qed

lemma dataset_map_Inl:
  assumes "r \<in> set (rows ds)" and "f r = Inl e"
  shows "\<exists>e'. dataset_map f ks ds = Inl e'"
proof -
  from assms update_rows_Inl[of r "rows ds" f e] obtain e' where
    "update_rows f (rows ds) = Inl e'" by blast
  then show ?thesis by (simp add: dataset_map_def)
qed

lemma filter_rows_total:
  "\<forall>r\<in>set rs. \<exists>b. p r = Inr b \<Longrightarrow> filter_rows p rs = Inr (filter (\<lambda>r. p r = Inr True) rs)"
proof (induction rs)
  case Nil
  then show ?case by simp
next
  case (Cons a rs)
  then obtain b where b: "p a = Inr b" by auto
  from Cons have "filter_rows p rs = Inr (filter (\<lambda>r. p r = Inr True) rs)" by simp
  with b show ?case by simp
qed

lemma filter_rows_Inr:
  "filter_rows p rs = Inr ks \<Longrightarrow> ks = filter (\<lambda>r. p r = Inr True) rs \<and> (\<forall>r\<in>set rs. \<exists>b. p r = Inr b)"
proof (induction rs arbitrary: ks)
  case Nil
  then show ?case by simp
next
  case (Cons a rs)
  from Cons.prems obtain b where b: "p a = Inr b"
    and rest: "and_then (filter_rows p rs) (\<lambda>ks'. Inr (if b then a # ks' else ks')) = Inr ks"
    by (auto elim: and_then_Inr_E)
  from rest obtain ks' where ks': "filter_rows p rs = Inr ks'" and ks: "ks = (if b then a # ks' else ks')"
    by (auto elim: and_then_Inr_E)
  from Cons.IH[OF ks'] b ks show ?case by auto
qed

lemma list_all2_filter:
  assumes "list_all2 R xs ys" and "\<And>x y. R x y \<Longrightarrow> P x = Q y"
  shows "list_all2 R (filter P xs) (filter Q ys)"
  using assms(1)
proof (induction rule: list_all2_induct)
  case Nil
  then show ?case by simp
next
  case (Cons x xs y ys)
  from assms(2)[OF Cons.hyps(1)] Cons show ?case by simp
qed

lemma accepted_zero_or_one:
  assumes "combined_filter_map lower orc ex args = Inr out"
  shows "out ''accepted'' = Some (VInt 1) \<or> out ''accepted'' = Some (VInt 0)"
proof -
  from assms obtain stats where d: "diagnostics lower orc ex args = Inr stats"
    and out: "out = ex ++ stats" by (rule combined_Inr)
  from diagnostics_fields[OF d] obtain r where
    "stats ''accepted'' = Some (VInt (if all_pass ex args r then 1 else 0))" by blast
  then show ?thesis by (simp add: out)
qed

lemma evaluator_merge:
  assumes "combined_filter_map lower orc ex args = Inr out"
  shows "ex ++ out = out"
proof -
  from assms obtain stats where "out = ex ++ stats" by (rule combined_Inr)
  then show ?thesis by (auto simp add: map_add_def split: option.splits)
qed

text \<open>Every output of the evaluator holds the keys that are not tags.\<close>

lemma evaluator_sets:
  assumes "combined_filter_map lower orc ex args = Inr out"
    and "k \<in> set stats_columns" and "k \<notin> set rejection_tags"
  shows "out k \<noteq> None"
proof -
  from assms(1) obtain stats where d: "diagnostics lower orc ex args = Inr stats"
    and out: "out = ex ++ stats" by (rule combined_Inr)
  from diagnostics_fields[OF d] have "stats ''stars'' \<noteq> None" and "stats ''nl_ratio'' \<noteq> None"
    and "stats ''accepted'' \<noteq> None" by auto
  moreover from assms(2,3) have "k = ''stars'' \<or> k = ''nl_ratio'' \<or> k = ''accepted''"
    by (auto simp add: stats_columns_def rejection_tags_def)
  ultimately show ?thesis by (auto simp add: out)
qed

lemma is_accepted_value:
  assumes "w ''accepted'' = Some (VInt 1) \<or> w ''accepted'' = Some (VInt 0)"
  shows "is_accepted w = Inr (w ''accepted'' = Some (VInt 1))"
  using assms by (auto simp add: is_accepted_def getitem_def py_eq_num_def)

lemma updated_are_outputs:
  assumes "update_rows (\<lambda>ex. combined_filter_map lower orc ex args) rs = Inr ups"
  shows "list_all2 (\<lambda>r out. combined_filter_map lower orc r args = Inr out) rs ups"
proof -
  have "list_all2 (\<lambda>r r'. \<exists>u. combined_filter_map lower orc r args = Inr u \<and> r' = r ++ u) rs ups"
    using update_rows_Inr[OF assms] .
  then show ?thesis by (rule list_all2_mono) (auto simp add: evaluator_merge)
qed

text \<open>
  The rows after the map of the evaluator: each was written from the evaluator's output
  for the row at its position.
\<close>

lemma annotated_rows:
  assumes "dataset_map (\<lambda>ex. combined_filter_map lower orc ex args) stats_columns ds = Inr mapped"
  shows "list_all2 (\<lambda>r w. \<exists>out. combined_filter_map lower orc r args = Inr out \<and> written_from out w)
           (rows ds) (rows mapped)"
    and "set (column_names ds) \<subseteq> set (column_names mapped)"
proof -
  from assms obtain ups added where
    u: "update_rows (\<lambda>ex. combined_filter_map lower orc ex args) (rows ds) = Inr ups" and
    r: "rows mapped = map (stored_row (column_names ds) added stats_columns) ups" and
    c: "column_names mapped = column_names ds @ added" and
    k: "\<forall>d\<in>set ups. \<forall>k. k \<notin> set stats_columns \<or> (\<forall>d'\<in>set ups. d' k \<noteq> None) \<longrightarrow>
            stored_row (column_names ds) added stats_columns d k = d k"
    by (rule dataset_map_Inr)
  note outs = updated_are_outputs[OF u]
  from outs have len: "length ups = length (rows ds)" by (simp add: list_all2_lengthD)
  have held: "\<forall>d'\<in>set ups. d' k \<noteq> None" if "k \<in> set stats_columns" and "k \<notin> set rejection_tags" for k
  proof
    fix d' assume "d' \<in> set ups"
    then obtain i where "i < length ups" and "d' = ups ! i" by (auto simp add: in_set_conv_nth)
    with outs have "combined_filter_map lower orc (rows ds ! i) args = Inr d'"
      by (simp add: list_all2_conv_all_nth)
    from evaluator_sets[OF this that] show "d' k \<noteq> None" .
  qed
  show "list_all2 (\<lambda>r w. \<exists>out. combined_filter_map lower orc r args = Inr out \<and> written_from out w)
           (rows ds) (rows mapped)"
    unfolding list_all2_conv_all_nth
  proof (intro conjI allI impI)
    show "length (rows ds) = length (rows mapped)" by (simp add: r len)
    fix i assume i: "i < length (rows ds)"
    with len have iu: "i < length ups" by simp
    then have mem: "ups ! i \<in> set ups" by simp
    from outs i have o: "combined_filter_map lower orc (rows ds ! i) args = Inr (ups ! i)"
      by (simp add: list_all2_conv_all_nth)
    have "written_from (ups ! i) (rows mapped ! i)"
      unfolding written_from_def
    proof (intro allI impI)
      fix k assume nt: "k \<notin> set rejection_tags"
      have "k \<notin> set stats_columns \<or> (\<forall>d'\<in>set ups. d' k \<noteq> None)"
        using held[OF _ nt] by blast
      with k mem have "stored_row (column_names ds) added stats_columns (ups ! i) k = (ups ! i) k"
        by blast
      with iu show "(rows mapped ! i) k = (ups ! i) k" by (simp add: r)
    qed
    with o show "\<exists>out. combined_filter_map lower orc (rows ds ! i) args = Inr out
        \<and> written_from out (rows mapped ! i)" by blast
  qed
  show "set (column_names ds) \<subseteq> set (column_names mapped)" by (auto simp add: c)
qed

lemma written_from_accepted:
  assumes "combined_filter_map lower orc r args = Inr out" and "written_from out w"
  shows "w ''accepted'' = out ''accepted''"
    and "w ''accepted'' = Some (VInt 1) \<or> w ''accepted'' = Some (VInt 0)"
    and "accepts lower orc args r = (w ''accepted'' = Some (VInt 1))"
proof -
  from assms(2) show a: "w ''accepted'' = out ''accepted''"
    by (simp add: written_from_def rejection_tags_def basic_tags_def)
  with accepted_zero_or_one[OF assms(1)]
  show "w ''accepted'' = Some (VInt 1) \<or> w ''accepted'' = Some (VInt 0)" by simp
  from a assms(1) show "accepts lower orc args r = (w ''accepted'' = Some (VInt 1))"
    by (simp add: accepts_def output_field_def)
qed

text \<open>The rows after the filter: those written from the outputs with \<open>accepted == 1\<close>, in order.\<close>

lemma filtered_rows:
  assumes "dataset_map (\<lambda>ex. combined_filter_map lower orc ex args) stats_columns ds = Inr mapped"
    and "dataset_filter is_accepted mapped = Inr fd"
  shows "rows fd = filter (\<lambda>w. w ''accepted'' = Some (VInt 1)) (rows mapped)"
    and "column_names fd = column_names mapped"
    and "list_all2 (\<lambda>r w. \<exists>out. combined_filter_map lower orc r args = Inr out \<and> written_from out w)
           (filter (accepts lower orc args) (rows ds)) (rows fd)"
proof -
  note ar = annotated_rows(1)[OF assms(1)]
  from assms(2) obtain ks where ks: "filter_rows is_accepted (rows mapped) = Inr ks"
    and fd: "fd = mapped\<lparr>rows := ks\<rparr>"
    unfolding dataset_filter_def by (auto elim: and_then_Inr_E)
  have each: "is_accepted w = Inr (w ''accepted'' = Some (VInt 1))" if "w \<in> set (rows mapped)" for w
  proof -
    from that ar obtain r out where "combined_filter_map lower orc r args = Inr out"
      and "written_from out w"
      by (auto simp add: list_all2_conv_all_nth in_set_conv_nth)
    from written_from_accepted(2)[OF this] show ?thesis by (rule is_accepted_value)
  qed
  from filter_rows_Inr[OF ks] have "ks = filter (\<lambda>r. is_accepted r = Inr True) (rows mapped)" by simp
  also have "\<dots> = filter (\<lambda>w. w ''accepted'' = Some (VInt 1)) (rows mapped)"
    by (rule filter_cong) (simp_all add: each)
  finally show rf: "rows fd = filter (\<lambda>w. w ''accepted'' = Some (VInt 1)) (rows mapped)"
    by (simp add: fd)
  show "column_names fd = column_names mapped" by (simp add: fd)
  show "list_all2 (\<lambda>r w. \<exists>out. combined_filter_map lower orc r args = Inr out \<and> written_from out w)
           (filter (accepts lower orc args) (rows ds)) (rows fd)"
    unfolding rf using ar
  proof (rule list_all2_filter)
    fix r w
    assume "\<exists>out. combined_filter_map lower orc r args = Inr out \<and> written_from out w"
    then obtain out where "combined_filter_map lower orc r args = Inr out" and "written_from out w"
      by blast
    then show "accepts lower orc args r = (w ''accepted'' = Some (VInt 1))"
      by (rule written_from_accepted(3))
  qed
qed

lemma filter_stats_Inr:
  assumes "filter_stats lower orc ds args = Inr (fd, st)"
  shows "\<exists>mapped.
      dataset_map (\<lambda>ex. combined_filter_map lower orc ex args) stats_columns ds = Inr mapped
    \<and> dataset_filter is_accepted mapped = Inr fd
    \<and> size_gb ds = Inr (initial_size_gb st)
    \<and> size_gb fd = Inr (final_size_gb st)
    \<and> initial_size st = ds_len ds
    \<and> final_size st = ds_len fd
    \<and> percentage (NInt (ds_len ds)) (NInt (ds_len fd)) = Inr (rejected_pct st)
    \<and> percentage (initial_size_gb st) (final_size_gb st) = Inr (size_reduction_pct st)"
  using assms unfolding filter_stats_def
  by (elim and_then_Inr_E) auto

lemma filter_dataset_with_stats_Inr:
  assumes "filter_dataset_with_stats lower orc ds args lg = Inr (fd, lg')"
  shows "\<exists>st. filter_stats lower orc ds args = Inr (fd, st)
           \<and> lg' = lg @ parameter_lines args @ stats_lines st"
  using assms unfolding filter_dataset_with_stats_def
  by (elim and_then_Inr_E) auto

section \<open>Properties of the filter stage\<close>

lemma percentage_int_Inr:
  assumes "percentage (NInt n) (NInt m) = Inr p"
  shows "n \<noteq> 0"
  using assms by (auto simp add: percentage_def split: if_splits)

lemma num_truediv_float:
  assumes "num_truediv a (NFloat d) = Inr q"
  obtains x y where "as_float a = Inr x" and "fl_div x d = Inr y" and "q = NFloat y"
proof (cases a)
  case (NInt i)
  with assms that show ?thesis by (auto elim!: and_then_Inr_E)
next
  case (NFloat f)
  with assms that show ?thesis by (auto elim!: and_then_Inr_E)
qed

lemma fl_div_zero: "fl_div x (Fin 0) = Inl ZeroDivisionError"
  by (cases x) simp_all

lemma size_gb_Inr:
  assumes "size_gb ds = Inr g"
  obtains tot f where "byte_total ds = Inr tot" and "g = NFloat f"
    and "exact tot = Fin 0 \<longrightarrow> f = Fin 0"
proof -
  from assms obtain tot where t: "byte_total ds = Inr tot"
    and d: "num_truediv tot (NFloat (Fin 1000000000)) = Inr g"
    unfolding size_gb_def by (auto elim: and_then_Inr_E)
  from d obtain x f where x: "as_float tot = Inr x" and q: "fl_div x (Fin 1000000000) = Inr f"
    and g: "g = NFloat f" by (rule num_truediv_float)
  have "f = Fin 0" if z: "exact tot = Fin 0"
  proof -
    from z x have "x = Fin 0"
      by (cases tot) (auto simp add: to_float_def round_binary64_zero)
    with q show ?thesis by (simp add: round_binary64_zero)
  qed
  then have "exact tot = Fin 0 \<longrightarrow> f = Fin 0" by blast
  with t g that show ?thesis by blast
qed

lemma percentage_float_Inr:
  assumes "percentage (NFloat f) b = Inr p"
  shows "f \<noteq> Fin 0"
proof
  assume z: "f = Fin 0"
  from assms[unfolded percentage_def] obtain d where
    rest: "and_then (num_mul d (NInt 100)) (\<lambda>p. num_truediv p (NFloat f)) = Inr p"
    by (rule and_then_Inr_E)
  from rest obtain q where r: "num_truediv q (NFloat f) = Inr p"
    by (rule and_then_Inr_E)
  from r obtain x y where "fl_div x f = Inr y" by (rule num_truediv_float)
  with z show False by (simp add: fl_div_zero)
qed

lemma sum_from_ints:
  "\<forall>v\<in>set vs. \<exists>n. v = VInt n \<and> 0 \<le> n \<Longrightarrow>
     \<exists>t. sum_from (NInt a) vs = Inr (NInt t) \<and> a \<le> t"
proof (induction vs arbitrary: a)
  case Nil
  then show ?case by simp
next
  case (Cons v vs)
  then obtain n where n: "v = VInt n" "0 \<le> n" by auto
  from Cons have "\<exists>t. sum_from (NInt (a + n)) vs = Inr (NInt t) \<and> a + n \<le> t" by simp
  with n show ?case by auto
qed

lemma byte_total_ints:
  assumes "byte_total ds = Inr tot"
    and "\<forall>r\<in>set (rows ds). \<exists>n. r ''size'' = Some (VInt n) \<and> 0 \<le> n"
  shows "\<exists>t. tot = NInt t \<and> 0 \<le> t"
proof -
  from assms(1) obtain sizes where c: "column ds ''size'' = Inr sizes" and s: "py_sum sizes = Inr tot"
    unfolding byte_total_def by (auto elim: and_then_Inr_E)
  from c have "sizes = map (\<lambda>r. case r ''size'' of None \<Rightarrow> VNone | Some v \<Rightarrow> v) (rows ds)"
    by (auto simp add: column_def split: if_splits)
  with assms(2) have "\<forall>v\<in>set sizes. \<exists>n. v = VInt n \<and> 0 \<le> n" by auto
  from sum_from_ints[OF this, of 0] s show ?thesis by (auto simp add: py_sum_def)
qed

text \<open>
  C10. On the empty corpus \<open>filter_dataset_with_stats\<close> returns nothing: it raises, and
  when the \<open>size\<close> column exists (the script makes sure of it) what it raises is the
  ZeroDivisionError of the unguarded division by the initial count. Whenever it does
  return, the corpus was not empty and its byte total was not zero: positive, for
  sizes that are non-negative ints.
\<close>

theorem percentages_need_nonempty_corpus:
  "(rows ds = [] \<longrightarrow>
      (\<exists>e. filter_dataset_with_stats lower orc ds args lg = Inl e)
    \<and> (''size'' \<in> set (column_names ds) \<longrightarrow>
          filter_dataset_with_stats lower orc ds args lg = Inl ZeroDivisionError))
   \<and> (\<forall>res. filter_dataset_with_stats lower orc ds args lg = Inr res \<longrightarrow>
        0 < ds_len ds
      \<and> (\<exists>tot. byte_total ds = Inr tot \<and> exact tot \<noteq> Fin 0
            \<and> ((\<forall>r\<in>set (rows ds). \<exists>n. r ''size'' = Some (VInt n) \<and> 0 \<le> n) \<longrightarrow>
                  (\<exists>t. tot = NInt t \<and> 0 < t))))"
proof (intro conjI allI impI)
  fix res
  assume ret: "filter_dataset_with_stats lower orc ds args lg = Inr res"
  obtain fd lg' where res: "res = (fd, lg')" by (cases res)
  from ret res filter_dataset_with_stats_Inr obtain st where
    fs: "filter_stats lower orc ds args = Inr (fd, st)" by blast
  from filter_stats_Inr[OF fs] have
    g: "size_gb ds = Inr (initial_size_gb st)" and
    p1: "percentage (NInt (ds_len ds)) (NInt (ds_len fd)) = Inr (rejected_pct st)" and
    p2: "percentage (initial_size_gb st) (final_size_gb st) = Inr (size_reduction_pct st)"
    by blast+
  from percentage_int_Inr[OF p1] show "0 < ds_len ds" by (simp add: ds_len_def)
  from g obtain tot f where t: "byte_total ds = Inr tot" and f: "initial_size_gb st = NFloat f"
    and z: "exact tot = Fin 0 \<longrightarrow> f = Fin 0" by (rule size_gb_Inr)
  from p2 f have "f \<noteq> Fin 0" using percentage_float_Inr by simp
  with z have nz: "exact tot \<noteq> Fin 0" by blast
  have "\<exists>t. tot = NInt t \<and> 0 < t"
    if "\<forall>r\<in>set (rows ds). \<exists>n. r ''size'' = Some (VInt n) \<and> 0 \<le> n"
  proof -
    from byte_total_ints[OF t that] obtain k where "tot = NInt k" "0 \<le> k" by blast
    with nz show ?thesis by auto
  qed
  with t nz show "\<exists>tot. byte_total ds = Inr tot \<and> exact tot \<noteq> Fin 0
            \<and> ((\<forall>r\<in>set (rows ds). \<exists>n. r ''size'' = Some (VInt n) \<and> 0 \<le> n) \<longrightarrow>
                  (\<exists>t. tot = NInt t \<and> 0 < t))" by blast
next
  assume e: "rows ds = []"
  show "\<exists>e. filter_dataset_with_stats lower orc ds args lg = Inl e"
  proof (cases "filter_dataset_with_stats lower orc ds args lg")
    case (Inl e)
    then show ?thesis by blast
  next
    case (Inr res)
    obtain fd lg' where res: "res = (fd, lg')" by (cases res)
    from Inr res filter_dataset_with_stats_Inr obtain st where
      fs: "filter_stats lower orc ds args = Inr (fd, st)" by blast
    from filter_stats_Inr[OF fs] have
      "percentage (NInt (ds_len ds)) (NInt (ds_len fd)) = Inr (rejected_pct st)" by blast
    from percentage_int_Inr[OF this] e show ?thesis by (simp add: ds_len_def)
  qed
next
  assume e: "rows ds = []" and c: "''size'' \<in> set (column_names ds)"
  have g: "size_gb ds = Inr (NFloat (Fin 0))"
    using e c by (simp add: size_gb_def byte_total_def column_def py_sum_def to_float_def round_binary64_zero)
  have m: "dataset_map (\<lambda>ex. combined_filter_map lower orc ex args) stats_columns ds = Inr ds"
    using e by (rule dataset_map_empty)
  show "filter_dataset_with_stats lower orc ds args lg = Inl ZeroDivisionError"
    using e c
    by (simp add: filter_dataset_with_stats_def filter_stats_def g m dataset_filter_def
        size_gb_def byte_total_def column_def py_sum_def to_float_def round_binary64_zero
        ds_len_def percentage_def)
qed


lemma sizes_are_bytesD:
  "sizes_are_bytes rs \<Longrightarrow> r \<in> set rs \<Longrightarrow> r ''size'' = Some (VInt (int_size r)) \<and> 0 \<le> int_size r"
  by (auto simp add: sizes_are_bytes_def list_all_iff int_size_def split: option.splits pyval.splits)

lemma sum_from_int_sizes:
  "sizes_are_bytes rs \<Longrightarrow>
     sum_from (NInt a) (map (\<lambda>r. case r ''size'' of None \<Rightarrow> VNone | Some v \<Rightarrow> v) rs)
       = Inr (NInt (a + sum_list (map int_size rs)))"
proof (induction rs arbitrary: a)
  case Nil
  then show ?case by simp
next
  case (Cons r rs)
  from Cons.prems have r: "r ''size'' = Some (VInt (int_size r))"
    by (simp add: sizes_are_bytesD)
  from Cons.prems have "sizes_are_bytes rs" by (simp add: sizes_are_bytes_def)
  from Cons.IH[OF this, of "a + int_size r"] r show ?case by (simp add: add.assoc)
qed

lemma byte_total_sum:
  assumes "sizes_are_bytes (rows ds)" and "''size'' \<in> set (column_names ds)"
  shows "byte_total ds = Inr (NInt (sum_list (map int_size (rows ds))))"
  using assms sum_from_int_sizes[of "rows ds" 0]
  by (simp add: byte_total_def column_def py_sum_def)

lemma sum_list_int_size_nonneg:
  "sizes_are_bytes rs \<Longrightarrow> 0 \<le> sum_list (map int_size rs)"
  by (rule sum_list_nonneg) (auto simp add: sizes_are_bytesD)

lemma sum_list_filter_le:
  "sizes_are_bytes rs \<Longrightarrow> sum_list (map int_size (filter P rs)) \<le> sum_list (map int_size rs)"
proof (induction rs)
  case Nil
  then show ?case by simp
next
  case (Cons r rs)
  from Cons.prems have "sizes_are_bytes rs" and "0 \<le> int_size r"
    by (simp_all add: sizes_are_bytes_def int_size_def split: option.splits pyval.splits)
  with Cons.IH show ?case by auto
qed

text \<open>The evaluator leaves the \<open>size\<close> of a record as it is.\<close>

lemma evaluator_keeps_size:
  assumes "combined_filter_map lower orc r args = Inr out"
  shows "out ''size'' = r ''size''"
proof -
  from assms obtain stats where d: "diagnostics lower orc r args = Inr stats"
    and out: "out = r ++ stats" by (rule combined_Inr)
  from diagnostics_fields[OF d] have "\<forall>k. k \<notin> set stats_columns \<longrightarrow> stats k = None" by blast
  then have "stats ''size'' = None" by (simp add: stats_columns_def basic_tags_def)
  then show ?thesis by (simp add: out map_add_def)
qed

lemma written_sizes:
  assumes "list_all2 (\<lambda>r w. \<exists>out. combined_filter_map lower orc r args = Inr out \<and> written_from out w) rs ws"
  shows "map int_size ws = map int_size rs" and "sizes_are_bytes rs \<Longrightarrow> sizes_are_bytes ws"
proof -
  have eq: "\<forall>i<length rs. (ws ! i) ''size'' = (rs ! i) ''size''"
  proof (intro allI impI)
    fix i assume "i < length rs"
    with assms obtain out where o: "combined_filter_map lower orc (rs ! i) args = Inr out"
      and w: "written_from out (ws ! i)"
      by (auto simp add: list_all2_conv_all_nth)
    from w have "(ws ! i) ''size'' = out ''size''"
      by (simp add: written_from_def rejection_tags_def basic_tags_def)
    with evaluator_keeps_size[OF o] show "(ws ! i) ''size'' = (rs ! i) ''size''" by simp
  qed
  from assms have len: "length ws = length rs" by (simp add: list_all2_lengthD)
  show "map int_size ws = map int_size rs"
    using eq len by (intro nth_equalityI) (simp_all add: int_size_def)
  show "sizes_are_bytes ws" if "sizes_are_bytes rs"
    unfolding sizes_are_bytes_def list_all_length
  proof (intro allI impI)
    fix i assume "i < length ws"
    with len have i: "i < length rs" by simp
    with that have "case (rs ! i) ''size'' of Some (VInt n) \<Rightarrow> 0 \<le> n | _ \<Rightarrow> False"
      by (simp add: sizes_are_bytes_def list_all_length)
    with eq i show "case (ws ! i) ''size'' of Some (VInt n) \<Rightarrow> 0 \<le> n | _ \<Rightarrow> False" by simp
  qed
qed


lemma pow2_1023_big: "100 < pow2 1023" "pow2 (- 1074) \<le> 1 / 1000000000"
proof -
  have "(100::rat) < pow2 7" by (simp add: pow2_def)
  also have "pow2 7 \<le> pow2 1023" by (rule pow2_mono) simp
  finally show "100 < pow2 1023" .
  have "pow2 (- 1074) \<le> pow2 (- 30)" by (rule pow2_mono) simp
  also have "pow2 (- 30) \<le> 1 / 1000000000" by (simp add: pow2_def)
  finally show "pow2 (- 1074) \<le> 1 / 1000000000" .
qed

lemma to_float_finite:
  "\<bar>of_int t\<bar> < pow2 1023 \<Longrightarrow> \<exists>y. to_float t = Inr (Fin y)"
  using round_binary64_finite[of "of_int t"] by (auto simp add: to_float_def)

lemma to_float_ge_one:
  assumes "1 \<le> t" and "of_int t < pow2 1023"
  shows "\<exists>y. to_float t = Inr (Fin y) \<and> 1 \<le> y \<and> y < pow2 1024"
proof -
  from assms(1) have "(1::rat) \<le> of_int t" by simp
  from round_binary64_ge_one[OF this assms(2)] show ?thesis
    by (auto simp add: to_float_def)
qed

lemma fl_div_nonzero: "b \<noteq> 0 \<Longrightarrow> \<exists>q. fl_div p (Fin b) = Inr q"
  by (cases p) simp_all

lemma size_gb_returns:
  assumes "byte_total ds = Inr (NInt t)" and "0 \<le> t" and "of_int t < pow2 1023"
  shows "\<exists>g. size_gb ds = Inr (NFloat g) \<and> (0 < t \<longrightarrow> (\<exists>v. g = Fin v \<and> v \<noteq> 0))"
proof (cases "t = 0")
  case True
  with assms(1) show ?thesis
    by (simp add: size_gb_def to_float_def round_binary64_zero)
next
  case False
  with assms(2) have t1: "1 \<le> t" by simp
  from to_float_ge_one[OF t1 assms(3)] obtain y where
    y: "to_float t = Inr (Fin y)" and y1: "1 \<le> y" and yu: "y < pow2 1024" by blast
  have fin: "\<bar>y / 1000000000\<bar> < pow2 1023"
    using y1 yu by (simp add: pow2_1024)
  have "1 / 1000000000 \<le> y / 1000000000" using y1 by simp
  with pow2_1023_big(2) y1 have big: "pow2 (- 1074) \<le> \<bar>y / 1000000000\<bar>" by simp
  from round_binary64_finite[OF fin] obtain v where v: "round_binary64 (y / 1000000000) = Fin v"
    by blast
  from round_binary64_nonzero[OF big] v have "v \<noteq> 0" by simp
  with assms(1) y v show ?thesis by (simp add: size_gb_def)
qed

lemma percentage_ints_returns:
  assumes "0 < n" and "0 \<le> m" and "m \<le> n"
  shows "\<exists>p. percentage (NInt n) (NInt m) = Inr p"
proof -
  define x :: rat where "x = of_int ((n - m) * 100) / of_int n"
  have n0: "(0::rat) < of_int n" using assms(1) by simp
  have "(of_int ((n - m) * 100) :: rat) \<le> of_int (100 * n)"
    using assms by (simp only: of_int_le_iff) simp
  then have "x \<le> 100" using n0 by (simp add: x_def field_simps)
  moreover have "0 \<le> x" using assms by (simp add: x_def)
  ultimately have "\<bar>x\<bar> < pow2 1023" using pow2_1023_big(1) by simp
  from round_binary64_finite[OF this] obtain y where "round_binary64 x = Fin y" by blast
  with assms(1) show ?thesis by (simp add: percentage_def x_def)
qed

lemma percentage_floats_returns:
  assumes "v \<noteq> 0"
  shows "\<exists>p. percentage (NFloat (Fin v)) (NFloat g) = Inr p"
proof -
  from fl_div_nonzero[OF assms] obtain q where
    "fl_div (fl_mul (fl_sub (Fin v) g) (Fin 100)) (Fin v) = Inr q" by blast
  then show ?thesis by (simp add: percentage_def to_float_def round_100)
qed

text \<open>
  The map of the evaluator returns when the evaluator returns on every record and
  attaches the same tags to each of them.
\<close>

lemma evaluator_map_returns:
  assumes ev: "\<forall>r\<in>set (rows ds). \<exists>out. combined_filter_map lower orc r args = Inr out \<and> holds_tags T out"
  shows "\<exists>mapped. dataset_map (\<lambda>ex. combined_filter_map lower orc ex args) stats_columns ds = Inr mapped"
proof -
  from ev have "\<forall>r\<in>set (rows ds). \<exists>out. combined_filter_map lower orc r args = Inr out" by blast
  from update_rows_returns[OF this] obtain ups where
    u: "update_rows (\<lambda>ex. combined_filter_map lower orc ex args) (rows ds) = Inr ups" by blast
  note outs = updated_are_outputs[OF u]
  have out: "\<exists>r\<in>set (rows ds). combined_filter_map lower orc r args = Inr d \<and> holds_tags T d"
    if "d \<in> set ups" for d
  proof -
    from that obtain i where i: "i < length ups" and d: "d = ups ! i" by (auto simp add: in_set_conv_nth)
    from outs i d have o: "combined_filter_map lower orc (rows ds ! i) args = Inr d"
      and l: "i < length (rows ds)"
      by (simp_all add: list_all2_conv_all_nth)
    from l have m: "rows ds ! i \<in> set (rows ds)" by simp
    with ev o have "holds_tags T d" by auto
    with o m show ?thesis by blast
  qed
  have "\<forall>d\<in>set ups. \<forall>d'\<in>set ups. \<forall>k\<in>set stats_columns. d k \<noteq> None \<longrightarrow> d' k \<noteq> None"
  proof (intro ballI impI)
    fix d d' k
    assume d: "d \<in> set ups" and d': "d' \<in> set ups" and k: "k \<in> set stats_columns" and h: "d k \<noteq> None"
    from out[OF d] have t: "holds_tags T d" by blast
    from out[OF d'] obtain r' where o': "combined_filter_map lower orc r' args = Inr d'"
      and t': "holds_tags T d'" by blast
    show "d' k \<noteq> None"
    proof (cases "k \<in> set rejection_tags")
      case True
      with t h have "k \<in> T" by (auto simp add: holds_tags_def list_all_iff)
      with t' True show ?thesis by (auto simp add: holds_tags_def list_all_iff)
    next
      case False
      from evaluator_sets[OF o' k False] show ?thesis .
    qed
  qed
  from dataset_map_returns[OF u this] show ?thesis .
qed

lemma filter_stats_returns:
  assumes ev: "\<forall>r\<in>set (rows ds). \<exists>out. combined_filter_map lower orc r args = Inr out \<and> holds_tags T out"
    and col: "''size'' \<in> set (column_names ds)"
    and sz: "sizes_are_bytes (rows ds)"
    and pos: "0 < sum_list (map int_size (rows ds))"
    and bound: "of_int (sum_list (map int_size (rows ds))) < pow2 1023"
  shows "\<exists>fd st. filter_stats lower orc ds args = Inr (fd, st)"
proof -
  define t where "t = sum_list (map int_size (rows ds))"
  have bt: "byte_total ds = Inr (NInt t)" using byte_total_sum[OF sz col] by (simp add: t_def)
  from size_gb_returns[OF bt] pos bound obtain v where
    g: "size_gb ds = Inr (NFloat (Fin v))" and v: "v \<noteq> 0" by (auto simp add: t_def)
  from evaluator_map_returns[OF ev] obtain mapped where
    m: "dataset_map (\<lambda>ex. combined_filter_map lower orc ex args) stats_columns ds = Inr mapped"
    by blast
  note mr = annotated_rows[OF m]
  have acc: "\<forall>w\<in>set (rows mapped). \<exists>b. is_accepted w = Inr b"
  proof
    fix w assume "w \<in> set (rows mapped)"
    with mr(1) obtain r out where "combined_filter_map lower orc r args = Inr out"
      and "written_from out w"
      by (auto simp add: list_all2_conv_all_nth in_set_conv_nth)
    from written_from_accepted(2)[OF this]
    have "is_accepted w = Inr (w ''accepted'' = Some (VInt 1))" by (rule is_accepted_value)
    then show "\<exists>b. is_accepted w = Inr b" by blast
  qed
  from filter_rows_total[OF acc] obtain fd where
    f: "dataset_filter is_accepted mapped = Inr fd" by (simp add: dataset_filter_def)
  note fr = filtered_rows[OF m f]
  note ms = written_sizes[OF mr(1)]
  have szm: "sizes_are_bytes (rows mapped)" using ms(2) sz by simp
  have szf: "sizes_are_bytes (rows fd)"
    using szm by (simp add: fr(1) sizes_are_bytes_def list_all_iff)
  have colf: "''size'' \<in> set (column_names fd)" using col mr(2) fr(2) by auto
  define t' where "t' = sum_list (map int_size (rows fd))"
  have btf: "byte_total fd = Inr (NInt t')" using byte_total_sum[OF szf colf] by (simp add: t'_def)
  have t'0: "0 \<le> t'" using sum_list_int_size_nonneg[OF szf] by (simp add: t'_def)
  have "t' \<le> sum_list (map int_size (rows mapped))"
    unfolding t'_def fr(1) by (rule sum_list_filter_le[OF szm])
  also have "\<dots> = t" by (simp add: ms(1) t_def)
  finally have "t' \<le> t" .
  with bound have "(of_int t' :: rat) < pow2 1023" by (simp add: t_def)
  from size_gb_returns[OF btf t'0 this] obtain g' where g': "size_gb fd = Inr (NFloat g')" by blast
  have ne: "rows ds \<noteq> []" using pos by auto
  have "length (rows mapped) = length (rows ds)"
    using mr(1) by (simp add: list_all2_lengthD)
  moreover have "length (rows fd) \<le> length (rows mapped)"
    by (simp add: fr(1))
  ultimately have len: "length (rows fd) \<le> length (rows ds)" by simp
  from percentage_ints_returns[of "ds_len ds" "ds_len fd"] ne len obtain p1 where
    p1: "percentage (NInt (ds_len ds)) (NInt (ds_len fd)) = Inr p1" by (auto simp add: ds_len_def)
  from percentage_floats_returns[OF v] obtain p2 where
    p2: "percentage (NFloat (Fin v)) (NFloat g') = Inr p2" by blast
  show ?thesis by (simp add: filter_stats_def g m f g' p1 p2)
qed

lemmas stage_defs = filter_stats_def size_gb_def byte_total_def column_def py_sum_def
  dataset_map_def new_columns_def write_rows_def stored_row_def
  dataset_filter_def is_accepted_def percentage_def to_float_def ds_len_def
  combined_filter_map_def py_eq_num_def fl_sub_def corpus_columns_def stats_columns_def basic_tags_def

lemmas roundings = round_4 round_3 round_100 round_50 round_25 round_4_gb round_3_gb
  round_gb_diff round_gb_diff_100 round_gb_pct

lemma small_corpus_stats:
  "stats_of (filter_stats ascii_lower (const_oracle (Fin (1 / 2))) small_corpus default_args) =
     Some \<lparr>initial_size = 2, initial_size_gb = NFloat (Fin (4835703278458517 / 1208925819614629174706176)),
           final_size = 1, final_size_gb = NFloat (Fin (7253554917687775 / 2417851639229258349412352)),
           rejected_pct = NFloat (Fin 50),
           size_reduction_pct = NFloat (Fin (7036874417766401 / 281474976710656))\<rparr>"
  by (simp add: stats_of_def stage_defs eval_defs small_corpus_def roundings)

lemma small_corpus_kept_bytes:
  "kept_bytes (filter_stats ascii_lower (const_oracle (Fin (1 / 2))) small_corpus default_args) = Inr (NInt 3)"
  by (simp add: kept_bytes_def stage_defs eval_defs small_corpus_def roundings)

lemma small_corpus_bytes: "byte_total small_corpus = Inr (NInt 4)"
  by (simp add: stage_defs small_corpus_def)

text \<open>
  The columns of the annotated corpus come from its first record: the tag of the second
  record of the corpus above is not stored, and with the rejected record first the
  accepted one lacks the column \<open>stars_rejected\<close> and the stage raises.
\<close>

lemma small_corpus_tag_not_stored:
  "row_field 1 ''stars_rejected'' (returned (dataset_map
       (\<lambda>r. combined_filter_map ascii_lower (const_oracle (Fin (1 / 2))) r default_args) stats_columns
       small_corpus)) = None
   \<and> row_field 1 ''accepted'' (returned (dataset_map
       (\<lambda>r. combined_filter_map ascii_lower (const_oracle (Fin (1 / 2))) r default_args) stats_columns
       small_corpus)) = Some (VInt 0)"
  by (simp add: row_field_def returned_def stage_defs eval_defs small_corpus_def)

lemma rejected_first_raises:
  "filter_stats ascii_lower (const_oracle (Fin (1 / 2))) rejected_first_corpus default_args
     = Inl (KeyError ''stars_rejected'')"
  by (simp add: stage_defs eval_defs rejected_first_corpus_def roundings)

text \<open>
  C6, as stated, fails for \<open>size_reduction_pct\<close>: on a corpus of 4 bytes of which 3
  are kept, the byte formula gives 25 (exactly, and as the Python expression over the
  ints), while the code, which divides both totals by \<open>1e9\<close> first, computes
  25.000000000000004.
\<close>

theorem size_reduction_differs_from_byte_formula:
  "map_option size_reduction_pct
      (stats_of (filter_stats ascii_lower (const_oracle (Fin (1 / 2))) small_corpus default_args))
     = Some (NFloat (Fin (7036874417766401 / 281474976710656)))
   \<and> byte_total small_corpus = Inr (NInt 4)
   \<and> kept_bytes (filter_stats ascii_lower (const_oracle (Fin (1 / 2))) small_corpus default_args)
     = Inr (NInt 3)
   \<and> spec_percentage 4 3 = Inr (NFloat (Fin 25))
   \<and> spec_percentage_exact 4 3 = 25"
  by (simp add: small_corpus_stats small_corpus_kept_bytes small_corpus_bytes
      spec_percentage_def percentage_def spec_percentage_exact_def round_25)

lemma byte_total_column:
  "byte_total ds = Inr b \<Longrightarrow> ''size'' \<in> set (column_names ds)"
  by (auto simp add: byte_total_def column_def split: if_splits)

lemma gb_exact_identity:
  fixes a b :: int
  assumes "a \<noteq> 0"
  shows "(of_int a / 1000000000 - of_int b / 1000000000) * 100 / (of_int a / 1000000000)
           = spec_percentage_exact a b"
  using assms by (simp add: spec_percentage_exact_def field_simps)

lemma corpus_statistics_returned:
  assumes fs: "filter_stats lower orc ds args = Inr (fd, st)"
  shows "\<exists>ib fb.
          (\<forall>r\<in>set (rows ds). \<exists>out. combined_filter_map lower orc r args = Inr out)
        \<and> list_all2 (\<lambda>r w. \<exists>out. combined_filter_map lower orc r args = Inr out \<and> written_from out w)
            (filter (accepts lower orc args) (rows ds)) (rows fd)
        \<and> initial_size st = int (length (rows ds))
        \<and> final_size st = int (length (filter (accepts lower orc args) (rows ds)))
        \<and> 0 < initial_size st
        \<and> byte_total ds = Inr ib \<and> byte_total fd = Inr fb \<and> exact ib \<noteq> Fin 0
        \<and> num_truediv ib (NFloat (Fin 1000000000)) = Inr (initial_size_gb st)
        \<and> num_truediv fb (NFloat (Fin 1000000000)) = Inr (final_size_gb st)
        \<and> spec_percentage (initial_size st) (final_size st) = Inr (rejected_pct st)
        \<and> percentage (initial_size_gb st) (final_size_gb st) = Inr (size_reduction_pct st)
        \<and> map int_size (rows fd) = map int_size (filter (accepts lower orc args) (rows ds))
        \<and> (sizes_are_bytes (rows ds) \<longrightarrow>
              ib = NInt (sum_list (map int_size (rows ds)))
            \<and> fb = NInt (sum_list (map int_size (rows fd))))"
proof -
  from filter_stats_Inr[OF fs] obtain mapped where
    m: "dataset_map (\<lambda>ex. combined_filter_map lower orc ex args) stats_columns ds = Inr mapped" and
    f: "dataset_filter is_accepted mapped = Inr fd" and
    g: "size_gb ds = Inr (initial_size_gb st)" and
    g': "size_gb fd = Inr (final_size_gb st)" and
    i: "initial_size st = ds_len ds" and
    fi: "final_size st = ds_len fd" and
    p1: "percentage (NInt (ds_len ds)) (NInt (ds_len fd)) = Inr (rejected_pct st)" and
    p2: "percentage (initial_size_gb st) (final_size_gb st) = Inr (size_reduction_pct st)"
    by blast
  note mr = annotated_rows[OF m] and fr = filtered_rows[OF m f]
  have ev: "\<forall>r\<in>set (rows ds). \<exists>out. combined_filter_map lower orc r args = Inr out"
  proof
    fix r assume "r \<in> set (rows ds)"
    then obtain i where "i < length (rows ds)" and "r = rows ds ! i"
      by (auto simp add: in_set_conv_nth)
    with mr(1) show "\<exists>out. combined_filter_map lower orc r args = Inr out"
      unfolding list_all2_conv_all_nth by blast
  qed
  from g obtain ib where ib: "byte_total ds = Inr ib"
    and ibg: "num_truediv ib (NFloat (Fin 1000000000)) = Inr (initial_size_gb st)"
    unfolding size_gb_def by (auto elim: and_then_Inr_E)
  from g' obtain fb where fb: "byte_total fd = Inr fb"
    and fbg: "num_truediv fb (NFloat (Fin 1000000000)) = Inr (final_size_gb st)"
    unfolding size_gb_def by (auto elim: and_then_Inr_E)
  from g obtain tot fl where t: "byte_total ds = Inr tot" and fl: "initial_size_gb st = NFloat fl"
    and z: "exact tot = Fin 0 \<longrightarrow> fl = Fin 0" by (rule size_gb_Inr)
  from p2 fl have "fl \<noteq> Fin 0" using percentage_float_Inr by simp
  with z t ib have nz: "exact ib \<noteq> Fin 0" by auto
  have n0: "0 < initial_size st"
    using percentage_int_Inr[OF p1] by (simp add: i ds_len_def)
  have c1: "initial_size st = int (length (rows ds))" by (simp add: i ds_len_def)
  from fr(3) have "length (rows fd) = length (filter (accepts lower orc args) (rows ds))"
    by (simp add: list_all2_lengthD)
  then have c2: "final_size st = int (length (filter (accepts lower orc args) (rows ds)))"
    by (simp add: fi ds_len_def)
  have sp: "spec_percentage (initial_size st) (final_size st) = Inr (rejected_pct st)"
    using p1 by (simp add: spec_percentage_def i fi)
  note ks = written_sizes[OF fr(3)]
  have sums: "sizes_are_bytes (rows ds) \<longrightarrow>
              ib = NInt (sum_list (map int_size (rows ds)))
            \<and> fb = NInt (sum_list (map int_size (rows fd)))"
  proof
    assume sz: "sizes_are_bytes (rows ds)"
    from byte_total_sum[OF sz byte_total_column[OF ib]] ib
    have 1: "ib = NInt (sum_list (map int_size (rows ds)))" by simp
    from sz have "sizes_are_bytes (filter (accepts lower orc args) (rows ds))"
      by (simp add: sizes_are_bytes_def list_all_iff)
    then have szf: "sizes_are_bytes (rows fd)" by (rule ks(2))
    from byte_total_sum[OF szf byte_total_column[OF fb]] fb
    have 2: "fb = NInt (sum_list (map int_size (rows fd)))" by simp
    from 1 2 show "ib = NInt (sum_list (map int_size (rows ds)))
            \<and> fb = NInt (sum_list (map int_size (rows fd)))" ..
  qed
  show ?thesis
    apply (rule exI[of _ ib], rule exI[of _ fb])
    apply (intro conjI)
    by (fact ev fr(3) c1 c2 n0 ib fb nz ibg fbg sp p2 ks(1) sums)+
qed

text \<open>
  C6 (amended). Whenever the filter stage returns: every record was evaluated; the kept
  rows are, in order, the records that the evaluator accepts (\<open>accepted == 1\<close>), each
  with the fields of its evaluation other than rejection tags, and \<open>final_size\<close> is
  their number; the corpus is not empty and its byte total is not zero; \<open>rejected_pct\<close>
  is the spec's formula over the two counts; the two sizes are the byte totals (for int
  sizes, the sums of the records' \<open>size\<close> before and after filtering, the kept rows
  having the sizes of the accepted records) divided by \<open>1e9\<close> in binary64, and
  \<open>size_reduction_pct\<close> is \<open>(initial_gb - final_gb) * 100 / initial_gb\<close> over them, each
  operation rounded. The stage does return for every corpus with a \<open>size\<close> column on
  whose records the evaluator returns, attaching the same rejection tags to each, and
  whose sizes are non-negative ints with a positive total below \<open>2^1023\<close>. In exact
  arithmetic the expression over the two sizes in GB equals the spec's formula over the
  byte totals.
\<close>

theorem corpus_statistics:
  "(filter_stats lower orc ds args = Inr (fd, st) \<longrightarrow>
      (\<exists>ib fb.
          (\<forall>r\<in>set (rows ds). \<exists>out. combined_filter_map lower orc r args = Inr out)
        \<and> list_all2 (\<lambda>r w. \<exists>out. combined_filter_map lower orc r args = Inr out \<and> written_from out w)
            (filter (accepts lower orc args) (rows ds)) (rows fd)
        \<and> initial_size st = int (length (rows ds))
        \<and> final_size st = int (length (filter (accepts lower orc args) (rows ds)))
        \<and> 0 < initial_size st
        \<and> byte_total ds = Inr ib \<and> byte_total fd = Inr fb \<and> exact ib \<noteq> Fin 0
        \<and> num_truediv ib (NFloat (Fin 1000000000)) = Inr (initial_size_gb st)
        \<and> num_truediv fb (NFloat (Fin 1000000000)) = Inr (final_size_gb st)
        \<and> spec_percentage (initial_size st) (final_size st) = Inr (rejected_pct st)
        \<and> percentage (initial_size_gb st) (final_size_gb st) = Inr (size_reduction_pct st)
        \<and> map int_size (rows fd) = map int_size (filter (accepts lower orc args) (rows ds))
        \<and> (sizes_are_bytes (rows ds) \<longrightarrow>
              ib = NInt (sum_list (map int_size (rows ds)))
            \<and> fb = NInt (sum_list (map int_size (rows fd))))))
   \<and> ((\<forall>r\<in>set (rows ds). \<exists>out. combined_filter_map lower orc r args = Inr out \<and> holds_tags T out)
        \<and> ''size'' \<in> set (column_names ds) \<and> sizes_are_bytes (rows ds)
        \<and> 0 < sum_list (map int_size (rows ds))
        \<and> of_int (sum_list (map int_size (rows ds))) < pow2 1023 \<longrightarrow>
        (\<exists>fd' st'. filter_stats lower orc ds args = Inr (fd', st')))
   \<and> (\<forall>a b. a \<noteq> 0 \<longrightarrow>
        (of_int a / 1000000000 - of_int b / 1000000000) * 100 / (of_int a / 1000000000)
          = spec_percentage_exact a b)"
proof (intro conjI impI allI)
  assume "filter_stats lower orc ds args = Inr (fd, st)"
  then show "\<exists>ib fb.
          (\<forall>r\<in>set (rows ds). \<exists>out. combined_filter_map lower orc r args = Inr out)
        \<and> list_all2 (\<lambda>r w. \<exists>out. combined_filter_map lower orc r args = Inr out \<and> written_from out w)
            (filter (accepts lower orc args) (rows ds)) (rows fd)
        \<and> initial_size st = int (length (rows ds))
        \<and> final_size st = int (length (filter (accepts lower orc args) (rows ds)))
        \<and> 0 < initial_size st
        \<and> byte_total ds = Inr ib \<and> byte_total fd = Inr fb \<and> exact ib \<noteq> Fin 0
        \<and> num_truediv ib (NFloat (Fin 1000000000)) = Inr (initial_size_gb st)
        \<and> num_truediv fb (NFloat (Fin 1000000000)) = Inr (final_size_gb st)
        \<and> spec_percentage (initial_size st) (final_size st) = Inr (rejected_pct st)
        \<and> percentage (initial_size_gb st) (final_size_gb st) = Inr (size_reduction_pct st)
        \<and> map int_size (rows fd) = map int_size (filter (accepts lower orc args) (rows ds))
        \<and> (sizes_are_bytes (rows ds) \<longrightarrow>
              ib = NInt (sum_list (map int_size (rows ds)))
            \<and> fb = NInt (sum_list (map int_size (rows fd))))"
    by (rule corpus_statistics_returned)
next
  assume "(\<forall>r\<in>set (rows ds). \<exists>out. combined_filter_map lower orc r args = Inr out \<and> holds_tags T out)
        \<and> ''size'' \<in> set (column_names ds) \<and> sizes_are_bytes (rows ds)
        \<and> 0 < sum_list (map int_size (rows ds))
        \<and> of_int (sum_list (map int_size (rows ds))) < pow2 1023"
  then show "\<exists>fd' st'. filter_stats lower orc ds args = Inr (fd', st')"
    using filter_stats_returns[of ds lower orc args T] by blast
next
  fix a b :: int
  assume "a \<noteq> 0"
  then show "(of_int a / 1000000000 - of_int b / 1000000000) * 100 / (of_int a / 1000000000)
          = spec_percentage_exact a b"
    by (rule gb_exact_identity)
qed


lemma clean_corpus_rows_evaluate:
  "\<forall>r\<in>set (rows clean_corpus). \<exists>out.
      combined_filter_map ascii_lower (const_oracle (Fin (1 / 2))) r default_args = Inr out
    \<and> holds_tags {} out"
  by (simp add: clean_corpus_def holds_tags_def rejection_tags_def basic_tags_def
      combined_filter_map_def eval_defs)

lemma clean_corpus_accepted:
  "filter (accepts ascii_lower (const_oracle (Fin (1 / 2))) default_args) (rows clean_corpus)
     = rows clean_corpus"
  by (simp add: clean_corpus_def accepts_def output_field_def combined_filter_map_def eval_defs)

text \<open>
  C6 (amended) on the corpus of two records of which one is kept, with the counts,
  totals and percentages of the theorem, and on the corpus of two records that pass
  every gate, where the stage returns and keeps both.
\<close>

theorem corpus_statistics_witness:
  "sizes_are_bytes (rows small_corpus)
   \<and> byte_total small_corpus = Inr (NInt 4)
   \<and> kept_bytes (filter_stats ascii_lower (const_oracle (Fin (1 / 2))) small_corpus default_args)
       = Inr (NInt 3)
   \<and> map_option initial_size
        (stats_of (filter_stats ascii_lower (const_oracle (Fin (1 / 2))) small_corpus default_args)) = Some 2
   \<and> map_option final_size
        (stats_of (filter_stats ascii_lower (const_oracle (Fin (1 / 2))) small_corpus default_args)) = Some 1
   \<and> map_option rejected_pct
        (stats_of (filter_stats ascii_lower (const_oracle (Fin (1 / 2))) small_corpus default_args))
       = Some (NFloat (Fin 50))
   \<and> spec_percentage 2 1 = Inr (NFloat (Fin 50))
   \<and> percentage (NFloat (Fin (4835703278458517 / 1208925819614629174706176)))
       (NFloat (Fin (7253554917687775 / 2417851639229258349412352)))
       = Inr (NFloat (Fin (7036874417766401 / 281474976710656)))
   \<and> list_all (\<lambda>r. holds_tags {}
         (case combined_filter_map ascii_lower (const_oracle (Fin (1 / 2))) r default_args of
            Inr out \<Rightarrow> out | Inl e \<Rightarrow> r)) (rows clean_corpus)
   \<and> map_option final_size
        (stats_of (filter_stats ascii_lower (const_oracle (Fin (1 / 2))) clean_corpus default_args)) = Some 2
   \<and> (of_int 4 / 1000000000 - of_int 3 / 1000000000) * 100 / (of_int 4 / 1000000000)
       = spec_percentage_exact 4 3"
proof -
  let ?run = "filter_stats ascii_lower (const_oracle (Fin (1 / 2))) small_corpus default_args"
  let ?clean = "filter_stats ascii_lower (const_oracle (Fin (1 / 2))) clean_corpus default_args"
  have sz: "sizes_are_bytes (rows small_corpus)"
    by (simp add: small_corpus_def sizes_are_bytes_def)
  have total: "sum_list (map int_size (rows small_corpus)) = 4"
    by (simp add: small_corpus_def int_size_def)
  from small_corpus_stats obtain fd st where fs: "?run = Inr (fd, st)"
    by (cases ?run) (auto simp add: stats_of_def)
  from corpus_statistics[THEN conjunct1, THEN mp, OF fs] obtain ib fb where
    i: "byte_total small_corpus = Inr ib" and f: "byte_total fd = Inr fb" and
    sp: "spec_percentage (initial_size st) (final_size st) = Inr (rejected_pct st)" and
    p: "percentage (initial_size_gb st) (final_size_gb st) = Inr (size_reduction_pct st)" and
    sums: "sizes_are_bytes (rows small_corpus) \<longrightarrow>
              ib = NInt (sum_list (map int_size (rows small_corpus)))
            \<and> fb = NInt (sum_list (map int_size (rows fd)))"
    by blast
  from fs small_corpus_stats have st: "st =
     \<lparr>initial_size = 2, initial_size_gb = NFloat (Fin (4835703278458517 / 1208925819614629174706176)),
      final_size = 1, final_size_gb = NFloat (Fin (7253554917687775 / 2417851639229258349412352)),
      rejected_pct = NFloat (Fin 50),
      size_reduction_pct = NFloat (Fin (7036874417766401 / 281474976710656))\<rparr>"
    by (simp add: stats_of_def)
  from sums sz total i have b4: "byte_total small_corpus = Inr (NInt 4)" by simp
  from sp have r: "spec_percentage 2 1 = Inr (NFloat (Fin 50))" by (simp add: st)
  from p have q: "percentage (NFloat (Fin (4835703278458517 / 1208925819614629174706176)))
       (NFloat (Fin (7253554917687775 / 2417851639229258349412352)))
       = Inr (NFloat (Fin (7036874417766401 / 281474976710656)))"
    by (simp add: st)
  have ccol: "''size'' \<in> set (column_names clean_corpus)"
    by (simp add: clean_corpus_def corpus_columns_def)
  have csz: "sizes_are_bytes (rows clean_corpus)"
    by (simp add: clean_corpus_def sizes_are_bytes_def)
  have ctotal: "sum_list (map int_size (rows clean_corpus)) = 4"
    by (simp add: clean_corpus_def int_size_def)
  have "(4::rat) < pow2 1023" using pow2_1023_big(1) by simp
  with ctotal have bound: "of_int (sum_list (map int_size (rows clean_corpus))) < pow2 1023"
    and pos: "0 < sum_list (map int_size (rows clean_corpus))" by simp_all
  from corpus_statistics[THEN conjunct2, THEN conjunct1, THEN mp,
      OF conjI[OF clean_corpus_rows_evaluate conjI[OF ccol conjI[OF csz conjI[OF pos bound]]]]]
  obtain fd' st' where fs': "?clean = Inr (fd', st')" by blast
  from corpus_statistics[THEN conjunct1, THEN mp, OF fs']
  have "final_size st' = int (length (filter
      (accepts ascii_lower (const_oracle (Fin (1 / 2))) default_args) (rows clean_corpus)))" by blast
  then have "final_size st' = 2" by (simp add: clean_corpus_accepted) (simp add: clean_corpus_def)
  with fs' have c2: "map_option final_size (stats_of ?clean) = Some 2" by (simp add: stats_of_def)
  have tags: "list_all (\<lambda>r. holds_tags {}
         (case combined_filter_map ascii_lower (const_oracle (Fin (1 / 2))) r default_args of
            Inr out \<Rightarrow> out | Inl e \<Rightarrow> r)) (rows clean_corpus)"
    using clean_corpus_rows_evaluate by (auto simp add: list_all_iff)
  have ex: "(of_int 4 / 1000000000 - of_int 3 / 1000000000) * 100 / (of_int 4 / 1000000000)
       = spec_percentage_exact 4 3"
    by (rule corpus_statistics[THEN conjunct2, THEN conjunct2, THEN spec, THEN spec, THEN mp]) simp
  from sz b4 r q c2 tags ex show ?thesis
    by (simp add: small_corpus_kept_bytes small_corpus_stats)
qed

text \<open>C10 on the empty corpus, where the stage raises, and on the corpus of two records, where it returns.\<close>

theorem percentages_need_nonempty_corpus_witness:
  "rows empty_corpus = []
   \<and> filter_dataset_with_stats ascii_lower (const_oracle (Fin (1 / 2))) empty_corpus default_args []
       = Inl ZeroDivisionError
   \<and> kept_bytes (filter_dataset_with_stats ascii_lower (const_oracle (Fin (1 / 2))) small_corpus default_args [])
       = Inr (NInt 3)
   \<and> 0 < ds_len small_corpus
   \<and> byte_total small_corpus = Inr (NInt 4)"
proof -
  have e: "rows empty_corpus = []" by (simp add: empty_corpus_def)
  have c: "''size'' \<in> set (column_names empty_corpus)"
    by (simp add: empty_corpus_def corpus_columns_def)
  from percentages_need_nonempty_corpus[THEN conjunct1, THEN mp, OF e, THEN conjunct2, THEN mp, OF c]
  have z: "filter_dataset_with_stats ascii_lower (const_oracle (Fin (1 / 2))) empty_corpus default_args []
       = Inl ZeroDivisionError" .
  have k: "kept_bytes (filter_dataset_with_stats ascii_lower (const_oracle (Fin (1 / 2))) small_corpus default_args [])
       = Inr (NInt 3)"
    using small_corpus_kept_bytes
    by (cases "filter_stats ascii_lower (const_oracle (Fin (1 / 2))) small_corpus default_args")
       (auto simp add: kept_bytes_def filter_dataset_with_stats_def)
  then obtain res where ret:
    "filter_dataset_with_stats ascii_lower (const_oracle (Fin (1 / 2))) small_corpus default_args [] = Inr res"
    by (cases "filter_dataset_with_stats ascii_lower (const_oracle (Fin (1 / 2))) small_corpus default_args []")
       (simp_all add: kept_bytes_def)
  from percentages_need_nonempty_corpus[THEN conjunct2, THEN spec, THEN mp, OF ret]
  obtain tot where n: "0 < ds_len small_corpus" and t: "byte_total small_corpus = Inr tot" by blast
  from t small_corpus_bytes have "byte_total small_corpus = Inr (NInt 4)" by simp
  with e z k n show ?thesis by simp
qed


section \<open>Properties of persistence and of the script\<close>

lemma stream_to_disk_exists:
  assumes "save_manual_shards fd (hub_username args) (remote_repo args) (out_path args) (subset args) w
             = (Inl FileExistsError, w')"
  shows "stream_to_disk save_manual_shards fd args (lg, w) =
           (Inr (lg @ [(INFO, StreamingToDisk),
                       (WARNING, OutputDirExists (out_path args) (subset args))]), w')"
  using assms by (simp add: stream_to_disk_def)

text \<open>
  C7. When the writer signals that the destination already exists (it raises
  FileExistsError), \<open>stream_to_disk\<close> does not raise: it returns after logging one
  warning, the spec's outcome SkippedExisting, and the outside world is the one the writer
  left, so nothing was written if the writer wrote nothing. The script then logs its
  last line and ends successfully. The accepted corpus is a value handed to the writer;
  no step can change it.
\<close>

theorem existing_output_is_skipped:
  assumes "save_manual_shards fd (hub_username args) (remote_repo args) (out_path args) (subset args) w
             = (Inl FileExistsError, w')"
  shows "stream_to_disk save_manual_shards fd args (lg, w) =
           (Inr (lg @ [(INFO, StreamingToDisk),
                       (WARNING, OutputDirExists (out_path args) (subset args))]), w')
     \<and> persist_outcome (stream_to_disk save_manual_shards fd args (lg, w)) = Some SkippedExisting
     \<and> (w' = w \<longrightarrow> snd (stream_to_disk save_manual_shards fd args (lg, w)) = w)
     \<and> (\<forall>lower orc loaded ds lg1 lg2.
           add_size_column loaded startup_lines = Inr (ds, lg1)
         \<and> filter_dataset_with_stats lower orc ds args lg1 = Inr (fd, lg2) \<longrightarrow>
           run_script lower orc save_manual_shards args loaded w =
             (Inr (lg2 @ [(INFO, StreamingToDisk),
                          (WARNING, OutputDirExists (out_path args) (subset args)),
                          (INFO, ProcessingCompleted)]), w'))"
proof -
  have any: "stream_to_disk save_manual_shards fd args (l, w) =
           (Inr (l @ [(INFO, StreamingToDisk),
                      (WARNING, OutputDirExists (out_path args) (subset args))]), w')" for l
    using assms by (rule stream_to_disk_exists)
  show ?thesis
  proof (intro conjI allI impI)
    show "stream_to_disk save_manual_shards fd args (lg, w) =
           (Inr (lg @ [(INFO, StreamingToDisk),
                       (WARNING, OutputDirExists (out_path args) (subset args))]), w')"
      by (rule any)
    show "persist_outcome (stream_to_disk save_manual_shards fd args (lg, w)) = Some SkippedExisting"
      by (simp add: any persist_outcome_def)
    show "snd (stream_to_disk save_manual_shards fd args (lg, w)) = w" if "w' = w"
      using that by (simp add: any)
  next
    fix lower orc loaded ds lg1 lg2
    assume "add_size_column loaded startup_lines = Inr (ds, lg1)
         \<and> filter_dataset_with_stats lower orc ds args lg1 = Inr (fd, lg2)"
    then show "run_script lower orc save_manual_shards args loaded w =
             (Inr (lg2 @ [(INFO, StreamingToDisk),
                          (WARNING, OutputDirExists (out_path args) (subset args)),
                          (INFO, ProcessingCompleted)]), w')"
      by (simp add: run_script_def any)
  qed
qed

lemma small_corpus_has_size: "add_size_column small_corpus lg = Inr (small_corpus, lg)"
  by (simp add: add_size_column_def small_corpus_def corpus_columns_def)

lemma small_corpus_filtered:
  "\<exists>fd lg2. filter_dataset_with_stats ascii_lower (const_oracle (Fin (1 / 2))) small_corpus default_args lg
      = Inr (fd, lg2)"
  using small_corpus_stats
  by (cases "filter_stats ascii_lower (const_oracle (Fin (1 / 2))) small_corpus default_args")
     (auto simp add: stats_of_def filter_dataset_with_stats_def)

text \<open>C7 on a run against a populated destination: the script succeeds, its log ends with the warning and the closing line, and the world is unchanged.\<close>

theorem existing_output_is_skipped_witness:
  "map_option (\<lambda>lg. drop (length lg - 2) lg)
      (returned (fst (run_script ascii_lower (const_oracle (Fin (1 / 2))) refusing_writer default_args
         small_corpus 0)))
     = Some [(WARNING, OutputDirExists ''out'' ''data/python''), (INFO, ProcessingCompleted)]
   \<and> snd (run_script ascii_lower (const_oracle (Fin (1 / 2))) refusing_writer default_args
        small_corpus 0) = 0"
proof -
  from small_corpus_filtered obtain fd lg2 where
    f: "filter_dataset_with_stats ascii_lower (const_oracle (Fin (1 / 2))) small_corpus default_args
          startup_lines = Inr (fd, lg2)" by blast
  have r: "refusing_writer fd (hub_username default_args) (remote_repo default_args)
             (out_path default_args) (subset default_args) 0 = (Inl FileExistsError, 0)"
    by (simp add: refusing_writer_def)
  from existing_output_is_skipped[where save_manual_shards = refusing_writer and fd = fd
      and args = default_args and w = 0 and w' = 0 and lg = "[]", OF r, THEN conjunct2,
      THEN conjunct2, THEN conjunct2,
      THEN spec, THEN spec, THEN spec, THEN spec, THEN spec, THEN spec, THEN mp,
      OF conjI[OF small_corpus_has_size f]]
  have "run_script ascii_lower (const_oracle (Fin (1 / 2))) refusing_writer default_args small_corpus 0 =
          (Inr (lg2 @ [(INFO, StreamingToDisk),
                       (WARNING, OutputDirExists (out_path default_args) (subset default_args)),
                       (INFO, ProcessingCompleted)]), 0)" .
  then show ?thesis by (simp add: default_args_def returned_def)
qed

section \<open>Properties of the size column\<close>

lemma content_size_Inr:
  assumes "content_size r = Inr u"
  obtains s where "r ''content'' = Some (VStr s)" and "u = [''size'' \<mapsto> VInt (int (length s))]"
proof -
  from assms obtain c where c: "getitem r ''content'' = Inr c"
    and rest: "and_then (py_len c) (\<lambda>n. Inr [''size'' \<mapsto> VInt n]) = Inr u"
    unfolding content_size_def by (rule and_then_Inr_E)
  from rest obtain n where n: "py_len c = Inr n" and u: "u = [''size'' \<mapsto> VInt n]"
    by (auto elim: and_then_Inr_E)
  from n obtain s where "c = VStr s" and "n = int (length s)"
    by (cases c) (simp_all add: py_len_def)
  with c u that show ?thesis
    by (auto simp add: getitem_def split: option.splits)
qed

lemma content_size_returns:
  "r ''content'' = Some (VStr s) \<Longrightarrow> content_size r = Inr [''size'' \<mapsto> VInt (int (length s))]"
  by (simp add: content_size_def getitem_def py_len_def)

lemma ascii_byte_length: "\<forall>c\<in>set s. c < 128 \<Longrightarrow> byte_length s = int (length s)"
  by (induction s) (simp_all add: byte_length_def utf8_width_def)

lemma run_script_Inr:
  assumes "fst (run_script lower orc writer args loaded w) = Inr lg"
  shows "\<exists>ds lg1 fd lg2. add_size_column loaded startup_lines = Inr (ds, lg1)
           \<and> filter_dataset_with_stats lower orc ds args lg1 = Inr (fd, lg2)"
  using assms
  by (auto simp add: run_script_def split: sum.splits prod.splits)

lemma update_rows_sized:
  assumes "update_rows content_size rs = Inr ups"
  shows "list_all2 (\<lambda>r r'. \<exists>s. r ''content'' = Some (VStr s)
                                \<and> r' = r(''size'' \<mapsto> VInt (int (length s)))) rs ups"
    and "\<forall>d\<in>set ups. d ''size'' \<noteq> None"
proof -
  have "list_all2 (\<lambda>r r'. \<exists>u. content_size r = Inr u \<and> r' = r ++ u) rs ups"
    using update_rows_Inr[OF assms] .
  then show la: "list_all2 (\<lambda>r r'. \<exists>s. r ''content'' = Some (VStr s)
                                \<and> r' = r(''size'' \<mapsto> VInt (int (length s)))) rs ups"
    by (rule list_all2_mono) (auto elim!: content_size_Inr)
  then have "list_all2 (\<lambda>r d. d ''size'' \<noteq> None) rs ups"
    by (rule list_all2_mono) auto
  then show "\<forall>d\<in>set ups. d ''size'' \<noteq> None"
    by (auto simp add: list_all2_conv_all_nth in_set_conv_nth)
qed

lemma size_rows_added:
  assumes "dataset_map content_size [''size''] ds = Inr ds'"
  shows "list_all2 (\<lambda>r r'. \<exists>s. r ''content'' = Some (VStr s)
                                \<and> r' = r(''size'' \<mapsto> VInt (int (length s)))) (rows ds) (rows ds')"
    and "''size'' \<notin> set (column_names ds) \<Longrightarrow>
          column_names ds' = (if rows ds = [] then column_names ds else column_names ds @ [''size''])"
proof -
  from assms obtain ups added where
    u: "update_rows content_size (rows ds) = Inr ups" and
    r: "rows ds' = map (stored_row (column_names ds) added [''size'']) ups" and
    c: "column_names ds' = column_names ds @ added" and
    k: "\<forall>d\<in>set ups. \<forall>k. k \<notin> set [''size''] \<or> (\<forall>d'\<in>set ups. d' k \<noteq> None) \<longrightarrow>
            stored_row (column_names ds) added [''size''] d k = d k" and
    a: "added = (case ups of [] \<Rightarrow> [] | first # rest \<Rightarrow> new_columns (column_names ds) [''size''] first)"
    by (rule dataset_map_Inr)
  note la = update_rows_sized(1)[OF u] and sized = update_rows_sized(2)[OF u]
  have "stored_row (column_names ds) added [''size''] d = d" if "d \<in> set ups" for d
  proof
    fix k
    have "k \<notin> set [''size''] \<or> (\<forall>d'\<in>set ups. d' k \<noteq> None)" using sized by auto
    with k that show "stored_row (column_names ds) added [''size''] d k = d k" by blast
  qed
  then have "map (stored_row (column_names ds) added [''size'']) ups = ups"
    by (simp add: map_idI)
  with r la show "list_all2 (\<lambda>r r'. \<exists>s. r ''content'' = Some (VStr s)
                                \<and> r' = r(''size'' \<mapsto> VInt (int (length s)))) (rows ds) (rows ds')"
    by simp
  from la have len: "length ups = length (rows ds)" by (simp add: list_all2_lengthD)
  show "column_names ds' = (if rows ds = [] then column_names ds else column_names ds @ [''size''])"
    if n: "''size'' \<notin> set (column_names ds)"
  proof (cases ups)
    case Nil
    with len a c show ?thesis by simp
  next
    case (Cons first rest)
    with sized have "first ''size'' \<noteq> None" by simp
    with n a Cons have "added = [''size'']" by (simp add: new_columns_def)
    with c len Cons show ?thesis by auto
  qed
qed

lemma size_map_returns:
  assumes "\<forall>r\<in>set (rows ds). \<exists>s. r ''content'' = Some (VStr s)"
  shows "\<exists>ds'. dataset_map content_size [''size''] ds = Inr ds'"
proof -
  from assms have "\<forall>r\<in>set (rows ds). \<exists>u. content_size r = Inr u"
    using content_size_returns by blast
  from update_rows_returns[OF this] obtain ups where
    u: "update_rows content_size (rows ds) = Inr ups" by blast
  from update_rows_sized(2)[OF u] have "\<forall>d\<in>set ups. \<forall>d'\<in>set ups. \<forall>k\<in>set [''size'']. d k \<noteq> None \<longrightarrow> d' k \<noteq> None" by simp
  from dataset_map_returns[OF u this] show ?thesis .
qed

text \<open>
  C9 (amended). The check is on the corpus, not on the record: a corpus that has a
  \<open>size\<close> column is left as it is; in a corpus without one every record gets
  \<open>size = len(content)\<close>, the number of characters of its content, \<open>size\<close> becoming a
  column unless the corpus has no record, and the step returns whenever every content
  is a string. That number is the byte length for content made of ASCII characters
  only. The script hands the corpus so completed to the filter stage.
\<close>

theorem size_column_from_content_length:
  "(''size'' \<in> set (column_names ds) \<longrightarrow> add_size_column ds lg = Inr (ds, lg))
   \<and> (''size'' \<notin> set (column_names ds) \<and> add_size_column ds lg = Inr (ds', lg') \<longrightarrow>
        column_names ds' = (if rows ds = [] then column_names ds else column_names ds @ [''size''])
        \<and> lg' = lg @ [(INFO, AddingSizeColumn)]
        \<and> list_all2 (\<lambda>r r'. \<exists>s. r ''content'' = Some (VStr s)
                                \<and> r' = r(''size'' \<mapsto> VInt (int (length s)))) (rows ds) (rows ds'))
   \<and> (''size'' \<notin> set (column_names ds) \<and> (\<forall>r\<in>set (rows ds). \<exists>s. r ''content'' = Some (VStr s)) \<longrightarrow>
        (\<exists>ds2 lg2. add_size_column ds lg = Inr (ds2, lg2)))
   \<and> (\<forall>s. (\<forall>c\<in>set s. c < 128) \<longrightarrow> byte_length s = int (length s))
   \<and> (\<forall>lower orc writer args w lgf.
        fst (run_script lower orc (writer :: 'w writer) (args :: 'a FilteringArguments_scheme) ds w)
          = Inr lgf \<longrightarrow>
        (\<exists>sized lg1 fd lg2. add_size_column ds startup_lines = Inr (sized, lg1)
           \<and> filter_dataset_with_stats lower orc sized args lg1 = Inr (fd, lg2)))"
proof (intro conjI allI impI)
  assume "''size'' \<in> set (column_names ds)"
  then show "add_size_column ds lg = Inr (ds, lg)" by (simp add: add_size_column_def)
next
  assume a: "''size'' \<notin> set (column_names ds) \<and> add_size_column ds lg = Inr (ds', lg')"
  then obtain m: "dataset_map content_size [''size''] ds = Inr ds'"
    and lg': "lg' = lg @ [(INFO, AddingSizeColumn)]"
    by (auto simp add: add_size_column_def elim!: and_then_Inr_E)
  from a size_rows_added(2)[OF m]
  show "column_names ds' = (if rows ds = [] then column_names ds else column_names ds @ [''size''])"
    by blast
  from lg' show "lg' = lg @ [(INFO, AddingSizeColumn)]" .
  from size_rows_added(1)[OF m]
  show "list_all2 (\<lambda>r r'. \<exists>s. r ''content'' = Some (VStr s)
                                \<and> r' = r(''size'' \<mapsto> VInt (int (length s)))) (rows ds) (rows ds')" .
next
  assume a: "''size'' \<notin> set (column_names ds) \<and> (\<forall>r\<in>set (rows ds). \<exists>s. r ''content'' = Some (VStr s))"
  then have "\<forall>r\<in>set (rows ds). \<exists>s. r ''content'' = Some (VStr s)" by blast
  from size_map_returns[OF this] obtain ds2 where "dataset_map content_size [''size''] ds = Inr ds2"
    by blast
  with a show "\<exists>ds2 lg2. add_size_column ds lg = Inr (ds2, lg2)"
    by (simp add: add_size_column_def)
next
  fix s :: pystr
  assume "\<forall>c\<in>set s. c < 128"
  then show "byte_length s = int (length s)" by (rule ascii_byte_length)
next
  fix lower orc and writer :: "'w writer" and args :: "'a FilteringArguments_scheme" and w lgf
  assume "fst (run_script lower orc writer args ds w) = Inr lgf"
  then show "\<exists>sized lg1 fd lg2. add_size_column ds startup_lines = Inr (sized, lg1)
           \<and> filter_dataset_with_stats lower orc sized args lg1 = Inr (fd, lg2)"
    by (rule run_script_Inr)
qed

text \<open>
  C9, as stated, fails on content outside ASCII: for a record without \<open>size\<close> whose
  content is the one character U+00E9, two bytes in UTF-8, the derived size is 1.
\<close>

theorem derived_size_counts_characters:
  "accent_record ''content'' = Some (VStr [233])
   \<and> accent_record ''size'' = None
   \<and> row_field 0 ''size'' (map_option fst (returned (add_size_column accent_corpus []))) = Some (VInt 1)
   \<and> byte_length [233] = 2"
  by (simp add: accent_record_def accent_corpus_def row_field_def returned_def add_size_column_def
      dataset_map_def new_columns_def write_rows_def stored_row_def
      content_size_def getitem_def py_len_def byte_length_def utf8_width_def)

text \<open>C9 (amended) on a corpus that has a size column and on one that has none.\<close>

theorem size_column_from_content_length_witness:
  "''size'' \<in> set (column_names small_corpus)
   \<and> add_size_column small_corpus [] = Inr (small_corpus, [])
   \<and> ''size'' \<notin> set (column_names accent_corpus)
   \<and> row_field 0 ''content'' (Some accent_corpus) = Some (VStr [233])
   \<and> row_field 0 ''size'' (map_option fst (returned (add_size_column accent_corpus []))) = Some (VInt 1)"
proof -
  have c: "''size'' \<in> set (column_names small_corpus)"
    by (simp add: small_corpus_def corpus_columns_def)
  from size_column_from_content_length[THEN conjunct1, THEN mp, OF c]
  have 1: "add_size_column small_corpus [] = Inr (small_corpus, [])" .
  have n: "''size'' \<notin> set (column_names accent_corpus)" by (simp add: accent_corpus_def)
  have str: "\<forall>r\<in>set (rows accent_corpus). \<exists>s. r ''content'' = Some (VStr s)"
    by (simp add: accent_corpus_def accent_record_def)
  from size_column_from_content_length[THEN conjunct2, THEN conjunct2, THEN conjunct1, THEN mp,
      OF conjI[OF n str]]
  obtain ds2 lg2 where ret: "add_size_column accent_corpus [] = Inr (ds2, lg2)" by blast
  from size_column_from_content_length[THEN conjunct2, THEN conjunct1, THEN mp, OF conjI[OF n ret]]
  have la: "list_all2 (\<lambda>r r'. \<exists>s. r ''content'' = Some (VStr s)
                                \<and> r' = r(''size'' \<mapsto> VInt (int (length s))))
              (rows accent_corpus) (rows ds2)" by blast
  have rows: "rows accent_corpus = [accent_record]" by (simp add: accent_corpus_def)
  from la obtain r' where ds2: "rows ds2 = [r']"
    and r': "\<exists>s. accent_record ''content'' = Some (VStr s) \<and> r' = accent_record(''size'' \<mapsto> VInt (int (length s)))"
    unfolding rows by (auto simp add: list_all2_Cons1)
  have "accent_record ''content'' = Some (VStr [233])" by (simp add: accent_record_def)
  with r' have "r' ''size'' = Some (VInt 1)" by auto
  with ds2 ret have 2: "row_field 0 ''size'' (map_option fst (returned (add_size_column accent_corpus []))) = Some (VInt 1)"
    by (simp add: row_field_def returned_def)
  have 3: "row_field 0 ''content'' (Some accent_corpus) = Some (VStr [233])"
    by (simp add: row_field_def accent_corpus_def accent_record_def)
  from c 1 n 2 3 show ?thesis by simp
qed

section \<open>Properties of oracle failures\<close>

lemma oracle_error_propagates:
  assumes "nl_ratio_of lower orc ex = Inl e"
  shows "\<exists>e'. combined_filter_map lower orc ex args = Inl e'"
proof (cases "combined_filter_map lower orc ex args")
  case (Inl e')
  then show ?thesis by blast
next
  case (Inr out)
  then obtain stats where d: "diagnostics lower orc ex args = Inr stats" by (rule combined_Inr)
  from diagnostics_fields[OF d] assms show ?thesis by auto
qed

lemma oracle_error_exact:
  assumes "nl_ratio_of lower orc ex = Inl e" and "well_formed_record ex"
  shows "combined_filter_map lower orc ex args = Inl e"
proof -
  from assms(2) obtain v1 where v1: "basic_filters ex args (True, Map.empty) = Inr v1"
    unfolding well_formed_record_def using basic_filters_returns by blast
  from assms(2) obtain v2 where v2: "stars_filter ex args v1 = Inr v2"
    unfolding well_formed_record_def using stars_filter_returns by blast
  show ?thesis
    by (simp add: combined_filter_map_def diagnostics_def v1 v2 comments_filter_def assms(1))
qed

lemma stage_fails_with_evaluator:
  assumes "ex \<in> set (rows ds)" and "combined_filter_map lower orc ex args = Inl e"
  shows "\<exists>e'. filter_dataset_with_stats lower orc ds args lg = Inl e'"
proof (cases "filter_dataset_with_stats lower orc ds args lg")
  case (Inl e')
  then show ?thesis by blast
next
  case (Inr res)
  obtain fd lg' where "res = (fd, lg')" by (cases res)
  with Inr filter_dataset_with_stats_Inr obtain st where
    "filter_stats lower orc ds args = Inr (fd, st)" by blast
  from filter_stats_Inr[OF this] obtain mapped where
    "dataset_map (\<lambda>ex. combined_filter_map lower orc ex args) stats_columns ds = Inr mapped" by blast
  moreover from assms dataset_map_Inl[of ex ds "\<lambda>ex. combined_filter_map lower orc ex args" e stats_columns]
  obtain e' where "dataset_map (\<lambda>ex. combined_filter_map lower orc ex args) stats_columns ds = Inl e'"
    by blast
  ultimately show ?thesis by simp
qed

lemma degenerate_ratio_rejected:
  assumes "combined_filter_map lower orc r args = Inr out"
  shows "\<exists>x. nl_ratio_of lower orc r = Inr x \<and> out ''nl_ratio'' = Some (VFloat x)
           \<and> (out ''accepted'' = Some (VInt 1) \<or> out ''accepted'' = Some (VInt 0))
           \<and> (fl_le x (min_threshold_comments args) \<longrightarrow>
                 out ''comments_rejected'' = Some (VInt 1) \<and> out ''accepted'' = Some (VInt 0))"
proof -
  from assms obtain stats where d: "diagnostics lower orc r args = Inr stats"
    and out: "out = r ++ stats" by (rule combined_Inr)
  from diagnostics_fields[OF d] obtain x where
    x: "nl_ratio_of lower orc r = Inr x" and
    nl: "stats ''nl_ratio'' = Some (VFloat x)" and
    cr: "stats ''comments_rejected'' = (if comments_cond x args then Some (VInt 1) else None)" and
    ac: "stats ''accepted'' = Some (VInt (if all_pass r args x then 1 else 0))"
    by blast
  have 1: "out ''nl_ratio'' = Some (VFloat x)" using nl by (simp add: out)
  have 2: "out ''accepted'' = Some (VInt 1) \<or> out ''accepted'' = Some (VInt 0)"
    using ac by (simp add: out)
  have 3: "fl_le x (min_threshold_comments args) \<longrightarrow>
                 out ''comments_rejected'' = Some (VInt 1) \<and> out ''accepted'' = Some (VInt 0)"
  proof
    assume "fl_le x (min_threshold_comments args)"
    then have c: "comments_cond x args" by (simp add: comments_cond_def)
    then have "\<not> all_pass r args x" by (simp add: all_pass_def)
    with c cr ac show "out ''comments_rejected'' = Some (VInt 1) \<and> out ''accepted'' = Some (VInt 0)"
      by (simp add: out)
  qed
  from x 1 2 3 show ?thesis by blast
qed

lemma annotated_ratio:
  assumes "combined_filter_map lower orc r args = Inr out" and "written_from out w"
  shows "\<exists>x. nl_ratio_of lower orc r = Inr x
           \<and> out ''nl_ratio'' = Some (VFloat x) \<and> w ''nl_ratio'' = Some (VFloat x)
           \<and> w ''accepted'' = out ''accepted''
           \<and> (w ''accepted'' = Some (VInt 1) \<or> w ''accepted'' = Some (VInt 0))
           \<and> (fl_le x (min_threshold_comments args) \<longrightarrow>
                 out ''comments_rejected'' = Some (VInt 1) \<and> w ''accepted'' = Some (VInt 0))"
proof -
  from degenerate_ratio_rejected[OF assms(1)] obtain x where
    x: "nl_ratio_of lower orc r = Inr x" and n: "out ''nl_ratio'' = Some (VFloat x)" and
    c: "fl_le x (min_threshold_comments args) \<longrightarrow>
          out ''comments_rejected'' = Some (VInt 1) \<and> out ''accepted'' = Some (VInt 0)"
    by blast
  from assms(2) have wn: "w ''nl_ratio'' = out ''nl_ratio''"
    by (simp add: written_from_def rejection_tags_def basic_tags_def)
  note wa = written_from_accepted(1,2)[OF assms]
  from x n wn wa c show ?thesis by auto
qed

text \<open>
  C8 (amended). The evaluator calls the oracle without a handler. When the oracle
  raises on a record, the evaluator raises on it (with the oracle's exception, for a
  well-formed record), and an exception of the evaluator on any one record makes the
  whole filter stage raise: nothing is returned for any record. When the map over the
  corpus does return, which needs the oracle to return on every record, each record
  was evaluated and the row at its position holds the \<open>nl_ratio\<close> and the \<open>accepted\<close>
  of its evaluation; a ratio at or below \<open>min_threshold_comments\<close>, such as a
  degenerate \<open>0.0\<close> under a non-negative minimum, is evaluated as \<open>comments_rejected\<close>
  and the row has \<open>accepted = 0\<close>.
\<close>

theorem oracle_failure_not_absorbed:
  "(nl_ratio_of lower orc ex = Inl e \<longrightarrow>
       (\<exists>e'. combined_filter_map lower orc ex args = Inl e')
     \<and> (well_formed_record ex \<longrightarrow> combined_filter_map lower orc ex args = Inl e))
   \<and> (ex \<in> set (rows ds) \<and> combined_filter_map lower orc ex args = Inl e \<longrightarrow>
        (\<exists>e'. filter_dataset_with_stats lower orc ds args lg = Inl e'))
   \<and> (dataset_map (\<lambda>r. combined_filter_map lower orc r args) stats_columns ds = Inr (mapped::dataset) \<longrightarrow>
        list_all2 (\<lambda>r w. \<exists>out x. combined_filter_map lower orc r args = Inr out
             \<and> nl_ratio_of lower orc r = Inr x
             \<and> out ''nl_ratio'' = Some (VFloat x) \<and> w ''nl_ratio'' = Some (VFloat x)
             \<and> w ''accepted'' = out ''accepted''
             \<and> (w ''accepted'' = Some (VInt 1) \<or> w ''accepted'' = Some (VInt 0))
             \<and> (fl_le x (min_threshold_comments args) \<longrightarrow>
                   out ''comments_rejected'' = Some (VInt 1) \<and> w ''accepted'' = Some (VInt 0)))
          (rows ds) (rows mapped))"
proof (intro conjI impI)
  assume a: "nl_ratio_of lower orc ex = Inl e"
  then show "\<exists>e'. combined_filter_map lower orc ex args = Inl e'" by (rule oracle_error_propagates)
  show "combined_filter_map lower orc ex args = Inl e" if "well_formed_record ex"
    using a that by (rule oracle_error_exact)
next
  assume "ex \<in> set (rows ds) \<and> combined_filter_map lower orc ex args = Inl e"
  then show "\<exists>e'. filter_dataset_with_stats lower orc ds args lg = Inl e'"
    using stage_fails_with_evaluator by blast
next
  assume "dataset_map (\<lambda>r. combined_filter_map lower orc r args) stats_columns ds = Inr mapped"
  from annotated_rows(1)[OF this]
  have "list_all2 (\<lambda>r w. \<exists>out. combined_filter_map lower orc r args = Inr out \<and> written_from out w)
          (rows ds) (rows mapped)" .
  then show "list_all2 (\<lambda>r w. \<exists>out x. combined_filter_map lower orc r args = Inr out
             \<and> nl_ratio_of lower orc r = Inr x
             \<and> out ''nl_ratio'' = Some (VFloat x) \<and> w ''nl_ratio'' = Some (VFloat x)
             \<and> w ''accepted'' = out ''accepted''
             \<and> (w ''accepted'' = Some (VInt 1) \<or> w ''accepted'' = Some (VInt 0))
             \<and> (fl_le x (min_threshold_comments args) \<longrightarrow>
                   out ''comments_rejected'' = Some (VInt 1) \<and> w ''accepted'' = Some (VInt 0)))
          (rows ds) (rows mapped)"
  proof (rule list_all2_mono)
    fix r w
    assume "\<exists>out. combined_filter_map lower orc r args = Inr out \<and> written_from out w"
    then obtain out where o: "combined_filter_map lower orc r args = Inr out"
      and w: "written_from out w" by blast
    from annotated_ratio[OF o w] o
    show "\<exists>out x. combined_filter_map lower orc r args = Inr out
             \<and> nl_ratio_of lower orc r = Inr x
             \<and> out ''nl_ratio'' = Some (VFloat x) \<and> w ''nl_ratio'' = Some (VFloat x)
             \<and> w ''accepted'' = out ''accepted''
             \<and> (w ''accepted'' = Some (VInt 1) \<or> w ''accepted'' = Some (VInt 0))
             \<and> (fl_le x (min_threshold_comments args) \<longrightarrow>
                   out ''comments_rejected'' = Some (VInt 1) \<and> w ''accepted'' = Some (VInt 0))"
      by blast
  qed
qed


lemma empty_file_corpus_size: "\<exists>g. size_gb corpus_with_empty_file = Inr g"
proof -
  have b: "byte_total corpus_with_empty_file = Inr (NInt 10)"
    by (simp add: byte_total_def column_def py_sum_def corpus_with_empty_file_def
        corpus_columns_def good_record_def empty_content_record_def)
  have "(10::rat) < pow2 1023" using pow2_1023_big(1) by simp
  then have "(of_int 10 :: rat) < pow2 1023" by simp
  from size_gb_returns[OF b _ this] show ?thesis by auto
qed

lemma empty_file_map_fails:
  "dataset_map (\<lambda>ex. combined_filter_map ascii_lower fragile_oracle ex default_args) stats_columns
      corpus_with_empty_file = Inl (ExternalError ''empty content'')"
  by (simp add: dataset_map_def corpus_with_empty_file_def combined_filter_map_def
      diagnostics_def basic_filters_def stars_filter_def comments_filter_def nl_ratio_of_def
      max_line_cond_def avg_line_cond_def alphanum_cond_def stars_cond_def comments_cond_def
      normalized_stars_def getitem_def str_lower_def py_gt_def py_lt_def py_le_def fl_le_def
      default_args_def good_record_def Let_def
      fragile_oracle_def empty_content_record_def code_points_def)

text \<open>
  C8, as stated, fails: with an oracle that raises on one record of three (the one
  with empty content), the whole pass over the corpus raises the oracle's exception.
\<close>

theorem one_oracle_failure_aborts_the_pass:
  "length (rows corpus_with_empty_file) = 3
   \<and> fragile_oracle (VStr (code_points ''x = 1'')) (code_points ''python'') = Inr (Fin (1 / 2))
   \<and> fragile_oracle (VStr []) (code_points ''python'') = Inl (ExternalError ''empty content'')
   \<and> filter_dataset_with_stats ascii_lower fragile_oracle corpus_with_empty_file default_args []
       = Inl (ExternalError ''empty content'')"
proof -
  from empty_file_corpus_size obtain g where g: "size_gb corpus_with_empty_file = Inr g" by blast
  have "filter_dataset_with_stats ascii_lower fragile_oracle corpus_with_empty_file default_args []
       = Inl (ExternalError ''empty content'')"
    by (simp add: filter_dataset_with_stats_def filter_stats_def g empty_file_map_fails)
  then show ?thesis
    by (simp add: corpus_with_empty_file_def fragile_oracle_def code_points_def)
qed

lemmas tolerant_defs = dataset_map_def new_columns_def write_rows_def stored_row_def
  stats_columns_def basic_tags_def corpus_with_empty_file_def combined_filter_map_def
  corpus_columns_def empty_content_record_def tolerant_oracle_def code_points_def

lemma tolerant_map_returns:
  "\<exists>mapped. dataset_map (\<lambda>r. combined_filter_map ascii_lower tolerant_oracle r default_args)
      stats_columns corpus_with_empty_file = Inr mapped"
  by (simp add: tolerant_defs eval_defs)

lemma tolerant_first_row:
  "row_field 0 ''accepted'' (returned (dataset_map
       (\<lambda>r. combined_filter_map ascii_lower tolerant_oracle r default_args) stats_columns
       corpus_with_empty_file)) = Some (VInt 1)"
  by (simp add: row_field_def returned_def tolerant_defs eval_defs)

lemma tolerant_tag_not_stored:
  "row_field 1 ''comments_rejected'' (returned (dataset_map
       (\<lambda>r. combined_filter_map ascii_lower tolerant_oracle r default_args) stats_columns
       corpus_with_empty_file)) = None"
  by (simp add: row_field_def returned_def tolerant_defs eval_defs)

text \<open>
  C8 (amended) on an oracle that raises on one record of three, and on an oracle that
  returns the degenerate ratio \<open>0.0\<close> on it: the record is then evaluated as
  \<open>comments_rejected\<close> and its row has \<open>accepted = 0\<close>; the tag itself is not stored,
  the first record having none.
\<close>

theorem oracle_failure_not_absorbed_witness:
  "empty_content_record \<in> set (rows corpus_with_empty_file)
   \<and> well_formed_record empty_content_record
   \<and> nl_ratio_of ascii_lower fragile_oracle empty_content_record = Inl (ExternalError ''empty content'')
   \<and> combined_filter_map ascii_lower fragile_oracle empty_content_record default_args
       = Inl (ExternalError ''empty content'')
   \<and> returned (filter_dataset_with_stats ascii_lower fragile_oracle corpus_with_empty_file default_args [])
       = None
   \<and> nl_ratio_of ascii_lower tolerant_oracle empty_content_record = Inr (Fin 0)
   \<and> fl_le (Fin 0) (min_threshold_comments default_args)
   \<and> output_field ''comments_rejected''
        (combined_filter_map ascii_lower tolerant_oracle empty_content_record default_args)
       = Some (VInt 1)
   \<and> row_field 1 ''nl_ratio'' (returned (dataset_map
         (\<lambda>r. combined_filter_map ascii_lower tolerant_oracle r default_args) stats_columns
         corpus_with_empty_file)) = Some (VFloat (Fin 0))
   \<and> row_field 1 ''accepted'' (returned (dataset_map
         (\<lambda>r. combined_filter_map ascii_lower tolerant_oracle r default_args) stats_columns
         corpus_with_empty_file)) = Some (VInt 0)
   \<and> row_field 1 ''comments_rejected'' (returned (dataset_map
         (\<lambda>r. combined_filter_map ascii_lower tolerant_oracle r default_args) stats_columns
         corpus_with_empty_file)) = None
   \<and> row_field 0 ''accepted'' (returned (dataset_map
         (\<lambda>r. combined_filter_map ascii_lower tolerant_oracle r default_args) stats_columns
         corpus_with_empty_file)) = Some (VInt 1)"
proof -
  have mem: "empty_content_record \<in> set (rows corpus_with_empty_file)"
    by (simp add: corpus_with_empty_file_def)
  have wf: "well_formed_record empty_content_record"
    by (simp add: well_formed_record_def is_number_def empty_content_record_def good_record_def)
  have nl: "nl_ratio_of ascii_lower fragile_oracle empty_content_record = Inl (ExternalError ''empty content'')"
    by (simp add: nl_ratio_of_def getitem_def str_lower_def fragile_oracle_def
        empty_content_record_def good_record_def)
  note thm1 = oracle_failure_not_absorbed[where lower = ascii_lower and orc = fragile_oracle
      and ex = empty_content_record and args = default_args and ds = corpus_with_empty_file
      and e = "ExternalError ''empty content''" and lg = "[]"]
  from thm1[THEN conjunct1, THEN mp, OF nl, THEN conjunct2, THEN mp, OF wf]
  have ev: "combined_filter_map ascii_lower fragile_oracle empty_content_record default_args
       = Inl (ExternalError ''empty content'')" .
  from thm1[THEN conjunct2, THEN conjunct1, THEN mp, OF conjI[OF mem ev]]
  obtain e' where "filter_dataset_with_stats ascii_lower fragile_oracle corpus_with_empty_file default_args []
       = Inl e'" by blast
  then have st: "returned (filter_dataset_with_stats ascii_lower fragile_oracle corpus_with_empty_file
       default_args []) = None" by (simp add: returned_def)
  have le: "fl_le (Fin 0) (min_threshold_comments default_args)"
    by (simp add: fl_le_def default_args_def)
  have tn: "nl_ratio_of ascii_lower tolerant_oracle empty_content_record = Inr (Fin 0)"
    by (simp add: nl_ratio_of_def getitem_def str_lower_def tolerant_oracle_def
        empty_content_record_def good_record_def)
  let ?f = "\<lambda>r. combined_filter_map ascii_lower tolerant_oracle r default_args"
  from tolerant_map_returns obtain mapped :: dataset where
    m: "dataset_map ?f stats_columns corpus_with_empty_file = Inr mapped" by blast
  note la = oracle_failure_not_absorbed[where lower = ascii_lower and orc = tolerant_oracle
      and args = default_args and ds = corpus_with_empty_file and mapped = mapped,
      THEN conjunct2, THEN conjunct2, THEN mp, OF m]
  have rows: "rows corpus_with_empty_file = [good_record, empty_content_record, good_record]"
    by (simp add: corpus_with_empty_file_def)
  from la have len: "length (rows mapped) = 3" by (simp add: rows list_all2_lengthD[symmetric])
  from la obtain out x where
    o: "?f empty_content_record = Inr out" and
    x: "nl_ratio_of ascii_lower tolerant_oracle empty_content_record = Inr x" and
    n: "(rows mapped ! 1) ''nl_ratio'' = Some (VFloat x)" and
    c: "fl_le x (min_threshold_comments default_args) \<longrightarrow>
          out ''comments_rejected'' = Some (VInt 1) \<and> (rows mapped ! 1) ''accepted'' = Some (VInt 0)"
    unfolding rows by (auto simp add: list_all2_Cons1)
  from x tn have x0: "x = Fin 0" by simp
  from c le x0 have tag: "out ''comments_rejected'' = Some (VInt 1)"
    and acc: "(rows mapped ! 1) ''accepted'' = Some (VInt 0)" by simp_all
  from o tag have 1: "output_field ''comments_rejected'' (?f empty_content_record) = Some (VInt 1)"
    by (simp add: output_field_def)
  from n x0 len have 2: "row_field 1 ''nl_ratio'' (returned (dataset_map ?f stats_columns
      corpus_with_empty_file)) = Some (VFloat (Fin 0))"
    by (simp add: m row_field_def returned_def)
  from acc len have 3: "row_field 1 ''accepted'' (returned (dataset_map ?f stats_columns
      corpus_with_empty_file)) = Some (VInt 0)"
    by (simp add: m row_field_def returned_def)
  from mem wf nl ev st tn le 1 2 3 tolerant_tag_not_stored tolerant_first_row
  show ?thesis by (intro conjI)
qed

end
